theory Spec2Isabelle
  imports Main
begin

section \<open>pypureomapi: wire primitives and OutBuffer\<close>

text \<open>
  The source is Python 2: a \<open>str\<close> is a sequence of bytes, so wire data and the textual
  forms of addresses share one type. Python integers are unbounded and are HOL integers.
\<close>

type_synonym bytes = string

datatype error =
    OmapiSizeLimitError
  | OmapiErrorNotFound
  | OmapiError string
  | ValueError
  | SocketError
  | AssertionError

text \<open>\<open>struct.pack("!H", i)\<close> and \<open>struct.pack("!L", i)\<close>: big-endian, 2 and 4 bytes.
  Both are only called behind the range check of the caller.\<close>

definition pack_H :: "int \<Rightarrow> bytes" where
  "pack_H i = [char_of (i div 256), char_of i]"

definition pack_L :: "int \<Rightarrow> bytes" where
  "pack_L i = [char_of (i div 16777216), char_of (i div 65536), char_of (i div 256), char_of i]"

text \<open>\<open>struct.unpack("!H", data)[0]\<close> and \<open>struct.unpack("!L", data)[0]\<close>: the big-endian
  value of the bytes. The source applies them to exactly the 2 (4) bytes that
  \<open>parse_fixedbuffer\<close> hands over.\<close>

definition unpack_H :: "bytes \<Rightarrow> int" where
  "unpack_H data = foldl (\<lambda>acc c. acc * 256 + of_char c) 0 data"

definition unpack_L :: "bytes \<Rightarrow> int" where
  "unpack_L data = foldl (\<lambda>acc c. acc * 256 + of_char c) 0 data"

subsection \<open>OutBuffer\<close>

text \<open>The buffer is a \<open>StringIO\<close> that is only ever written at its end: its content is
  what \<open>getvalue\<close> returns and \<open>tell()\<close> is its length. A method returns the exception it
  raised, if any, together with the buffer as the call left it.\<close>

datatype OutBuffer = OutBuffer (getvalue: bytes)

definition sizelimit :: nat where
  "sizelimit = 65536"

type_synonym outcome = "error option \<times> OutBuffer"

definition add :: "bytes \<Rightarrow> OutBuffer \<Rightarrow> outcome" where
  "add data b =
     (let b' = OutBuffer (getvalue b @ data)
      in if length (getvalue b') > sizelimit then (Some OmapiSizeLimitError, b')
         else (None, b'))"

text \<open>\<open>r \<then> f\<close> of the source's chained calls and statement sequences: \<open>f\<close> runs only
  when nothing was raised before.\<close>

definition and_then :: "outcome \<Rightarrow> (OutBuffer \<Rightarrow> outcome) \<Rightarrow> outcome" where
  "and_then r f = (case r of (None, b) \<Rightarrow> f b | (Some e, b) \<Rightarrow> (Some e, b))"

definition add_net32int :: "int \<Rightarrow> OutBuffer \<Rightarrow> outcome" where
  "add_net32int integer b =
     (if integer < 0 \<or> integer \<ge> 2 ^ 32 then (Some ValueError, b)
      else add (pack_L integer) b)"

definition add_net16int :: "int \<Rightarrow> OutBuffer \<Rightarrow> outcome" where
  "add_net16int integer b =
     (if integer < 0 \<or> integer \<ge> 2 ^ 16 then (Some ValueError, b)
      else add (pack_H integer) b)"

definition add_net32string :: "bytes \<Rightarrow> OutBuffer \<Rightarrow> outcome" where
  "add_net32string string b =
     (if int (length string) \<ge> 2 ^ 32 then (Some ValueError, b)
      else and_then (add_net32int (int (length string)) b) (add string))"

definition add_net16string :: "bytes \<Rightarrow> OutBuffer \<Rightarrow> outcome" where
  "add_net16string string b =
     (if int (length string) \<ge> 2 ^ 16 then (Some ValueError, b)
      else and_then (add_net16int (int (length string)) b) (add string))"

text \<open>\<open>add_bindict\<close>: the loop over the items, then the end marker.\<close>

fun add_entries :: "(bytes \<times> bytes) list \<Rightarrow> OutBuffer \<Rightarrow> outcome" where
  "add_entries [] b = (None, b)"
| "add_entries ((key, val) # items) b =
     and_then (and_then (add_net16string key b) (add_net32string val)) (add_entries items)"

definition add_bindict :: "(bytes \<times> bytes) list \<Rightarrow> OutBuffer \<Rightarrow> outcome" where
  "add_bindict items b = and_then (add_entries items b) (add [CHR 0x00, CHR 0x00])"

section \<open>InBuffer and its resumable parsers\<close>

record InBuffer =
  buff :: bytes
  totalsize :: nat

definition InBuffer_init :: InBuffer where
  "InBuffer_init = \<lparr>buff = [], totalsize = 0\<rparr>"

text \<open>\<open>feed\<close> appends and counts before it compares with the limit; the buffer it returns
  is the one the raised exception leaves behind.\<close>

definition feed :: "bytes \<Rightarrow> InBuffer \<Rightarrow> error option \<times> InBuffer" where
  "feed data s =
     (let s' = s\<lparr>buff := buff s @ data, totalsize := totalsize s + length data\<rparr>
      in if totalsize s' > sizelimit then (Some OmapiSizeLimitError, s') else (None, s'))"

definition resetsize :: "InBuffer \<Rightarrow> InBuffer" where
  "resetsize s = s\<lparr>totalsize := length (buff s)\<rparr>"

text \<open>Python slices \<open>s[:n]\<close> and \<open>s[n:]\<close> for an integer \<open>n\<close>; a negative \<open>n\<close> counts
  from the end.\<close>

definition slice_to :: "int \<Rightarrow> bytes \<Rightarrow> bytes" where
  "slice_to n s = (if n \<ge> 0 then take (nat n) s else take (nat (int (length s) + n)) s)"

definition slice_from :: "int \<Rightarrow> bytes \<Rightarrow> bytes" where
  "slice_from n s = (if n \<ge> 0 then drop (nat n) s else drop (nat (int (length s) + n)) s)"

text \<open>
  A parser of the source is a generator: each \<open>next()\<close> either yields \<open>None\<close> (more data
  is needed; the generator stays suspended with its local variables) or yields the parsed
  value. A generator is modelled by the frame it starts in and by what \<open>next()\<close> does in a
  given frame on a given buffer: \<open>Inl g'\<close> is a yielded \<open>None\<close> with the generator now
  suspended in frame \<open>g'\<close>, \<open>Inr a\<close> is the yielded value \<open>a\<close>.
\<close>

datatype ('g, 'a) generator =
  Generator (start: 'g) (resume: "'g \<Rightarrow> InBuffer \<Rightarrow> ('g + 'a) \<times> InBuffer")

text \<open>The first \<open>next()\<close> of a fresh generator.\<close>

definition first_next :: "('g, 'a) generator \<Rightarrow> InBuffer \<Rightarrow> ('g + 'a) \<times> InBuffer" where
  "first_next p s = resume p (start p) s"

definition parse_fixedbuffer :: "int \<Rightarrow> (unit, bytes) generator" where
  "parse_fixedbuffer len =
     Generator ()
       (\<lambda>_ s. if int (length (buff s)) < len then (Inl (), s)
               else (Inr (slice_to len (buff s)), s\<lparr>buff := slice_from len (buff s)\<rparr>))"

definition parse_map :: "('a \<Rightarrow> 'b) \<Rightarrow> ('g, 'a) generator \<Rightarrow> ('g, 'b) generator" where
  "parse_map filterfun parser =
     Generator (start parser)
       (\<lambda>g s. case resume parser g s of
                 (Inl g', s') \<Rightarrow> (Inl g', s')
               | (Inr element, s') \<Rightarrow> (Inr (filterfun element), s'))"

text \<open>\<open>parse_chain\<close> for two parsers, the second created from the first one's item once that
  is there. Its frame is either the first parser's frame, or the first item and the second
  parser's frame. The source's n-ary chain is this one nested to the left, its tuple of
  items the nested pair.\<close>

definition parse_chain ::
  "('g, 'a) generator \<Rightarrow> ('a \<Rightarrow> ('h, 'b) generator) \<Rightarrow> ('g + 'a \<times> 'h, 'a \<times> 'b) generator" where
  "parse_chain p q =
     Generator (Inl (start p))
       (\<lambda>f s. case f of
          Inl g \<Rightarrow>
            (case resume p g s of
               (Inl g', s') \<Rightarrow> (Inl (Inl g'), s')
             | (Inr a, s') \<Rightarrow>
                 (case first_next (q a) s' of
                    (Inl h, s'') \<Rightarrow> (Inl (Inr (a, h)), s'')
                  | (Inr b, s'') \<Rightarrow> (Inr (a, b), s'')))
        | Inr (a, h) \<Rightarrow>
            (case resume (q a) h s of
               (Inl h', s') \<Rightarrow> (Inl (Inr (a, h')), s')
             | (Inr b, s') \<Rightarrow> (Inr (a, b), s')))"

definition parse_net16int :: "(unit, int) generator" where
  "parse_net16int = parse_map unpack_H (parse_fixedbuffer 2)"

definition parse_net32int :: "(unit, int) generator" where
  "parse_net32int = parse_map unpack_L (parse_fixedbuffer 4)"

type_synonym strframe = "unit + int \<times> unit"

definition parse_net16string :: "(strframe, bytes) generator" where
  "parse_net16string = parse_map snd (parse_chain parse_net16int parse_fixedbuffer)"

definition parse_net32string :: "(strframe, bytes) generator" where
  "parse_net32string = parse_map snd (parse_chain parse_net32int parse_fixedbuffer)"

lemma slice_append: "slice_to n s @ slice_from n s = s"
  by (simp add: slice_to_def slice_from_def)

lemma fixedbuffer_Inr:
  "resume (parse_fixedbuffer n) g s = (Inr b, s') \<Longrightarrow>
     buff s = b @ buff s' \<and> totalsize s' = totalsize s"
  by (auto simp: parse_fixedbuffer_def slice_append split: if_splits)

lemma fixedbuffer_Inl:
  "resume (parse_fixedbuffer n) g s = (Inl g', s') \<Longrightarrow> s' = s"
  by (auto simp: parse_fixedbuffer_def split: if_splits)

lemma parse_map_Inr:
  "resume (parse_map f p) g s = (Inr b, s') \<Longrightarrow> \<exists>a. resume p g s = (Inr a, s') \<and> b = f a"
  by (auto simp: parse_map_def split: prod.splits sum.splits)

lemma parse_map_Inl:
  "resume (parse_map f p) g s = (Inl g', s') \<Longrightarrow> resume p g s = (Inl g', s')"
  by (auto simp: parse_map_def split: prod.splits sum.splits)

text \<open>All a parser does to the buffer is to take bytes from its front; the size meter is
  left alone.\<close>

definition consumes :: "('g, 'a) generator \<Rightarrow> bool" where
  "consumes p \<longleftrightarrow> (\<forall>g s r s'. resume p g s = (r, s') \<longrightarrow>
      (\<exists>c. buff s = c @ buff s') \<and> totalsize s' = totalsize s)"

lemma consumesD:
  "consumes p \<Longrightarrow> resume p g s = (r, s') \<Longrightarrow>
     length (buff s') \<le> length (buff s) \<and> totalsize s' = totalsize s"
  unfolding consumes_def by (metis length_append le_add2)

lemma consumes_fixedbuffer: "consumes (parse_fixedbuffer n)"
  unfolding consumes_def
  apply (intro allI impI)
  subgoal for g s r s'
    by (cases r) (auto dest: fixedbuffer_Inr fixedbuffer_Inl)
  done

lemma consumes_map: "consumes p \<Longrightarrow> consumes (parse_map f p)"
  unfolding consumes_def
  apply (intro allI impI)
  subgoal for g s r s'
    by (cases r) (auto dest!: parse_map_Inr parse_map_Inl)
  done

lemma consumes_chain: "consumes p \<Longrightarrow> (\<And>a. consumes (q a)) \<Longrightarrow> consumes (parse_chain p q)"
  unfolding consumes_def parse_chain_def first_next_def
  apply (intro allI impI)
  apply (auto split: sum.splits prod.splits)
  apply (metis append.assoc)+
  done

lemma consumes_net16string: "consumes parse_net16string"
  unfolding parse_net16string_def parse_net16int_def
  by (intro consumes_map consumes_chain consumes_fixedbuffer)

lemma consumes_net32string: "consumes parse_net32string"
  unfolding parse_net32string_def parse_net32int_def
  by (intro consumes_map consumes_chain consumes_fixedbuffer)

lemma chain_fixed_Inr:
  assumes "consumes p" "resume (parse_chain p parse_fixedbuffer) f s = (Inr (a, b), s')"
  shows "length (buff s') + length b \<le> length (buff s)"
  using assms(2) unfolding parse_chain_def first_next_def
  by (auto split: sum.splits prod.splits dest!: fixedbuffer_Inr consumesD[OF assms(1)])

lemma net16string_Inr:
  "resume parse_net16string f s = (Inr b, s') \<Longrightarrow> length (buff s') + length b \<le> length (buff s)"
  unfolding parse_net16string_def parse_net16int_def
  by (auto dest!: parse_map_Inr chain_fixed_Inr[OF consumes_map[OF consumes_fixedbuffer]])

text \<open>
  \<open>parse_bindict\<close>. Its frame holds \<open>entries\<close> and the inner generator it is iterating:
  the one for the key, or the key and the one for the value. An empty key ends the
  dictionary (the \<open>StopIteration\<close> that the source raises and catches itself).
\<close>

type_synonym dict = "(bytes \<times> bytes) list"
type_synonym dictframe = "dict \<times> (strframe + bytes \<times> strframe)"

function parse_bindict_resume :: "dictframe \<Rightarrow> InBuffer \<Rightarrow> (dictframe + dict) \<times> InBuffer" where
  "parse_bindict_resume (entries, Inl kf) s =
     (case resume parse_net16string kf s of
        (Inl kf', s') \<Rightarrow> (Inl (entries, Inl kf'), s')
      | (Inr key, s') \<Rightarrow>
          if key = [] then (Inr entries, s')
          else parse_bindict_resume (entries, Inr (key, start parse_net32string)) s')"
| "parse_bindict_resume (entries, Inr (key, vf)) s =
     (case resume parse_net32string vf s of
        (Inl vf', s') \<Rightarrow> (Inl (entries, Inr (key, vf')), s')
      | (Inr val, s') \<Rightarrow>
          parse_bindict_resume (entries @ [(key, val)], Inl (start parse_net16string)) s')"
  by pat_completeness auto
termination
proof (relation "measure (\<lambda>(f, s). 2 * length (buff s) + (case snd f of Inl _ \<Rightarrow> 0 | Inr _ \<Rightarrow> 1))",
    goal_cases)
  case 1
  show ?case by simp
next
  case (2 entries kf s x y b)
  then have "resume parse_net16string kf s = (Inr b, y)" by simp
  from net16string_Inr[OF this] 2(3) have "length (buff y) < length (buff s)"
    by (cases b) auto
  then show ?case by simp
next
  case (3 entries key vf s x y b)
  then have "resume parse_net32string vf s = (Inr b, y)" by simp
  from consumesD[OF consumes_net32string this] show ?case by simp
qed

definition parse_bindict :: "(dictframe, dict) generator" where
  "parse_bindict = Generator ([], Inl (start parse_net16string)) parse_bindict_resume"

section \<open>Authenticators and messages\<close>

text \<open>An authenticator object: its attributes and its two methods. \<open>sign\<close> is a function of
  the bytes to sign; \<open>auth_object\<close> is given by the \<open>items()\<close> of the dictionary it returns.\<close>

record OmapiAuthenticatorBase =
  authlen :: int
  algorithm :: "bytes option"
  authid :: int
  auth_object :: dict
  sign :: "bytes \<Rightarrow> bytes"

definition OmapiNullAuthenticator :: OmapiAuthenticatorBase where
  "OmapiNullAuthenticator =
     \<lparr>authlen = 0, algorithm = None, authid = 0, auth_object = [], sign = (\<lambda>_. [])\<rparr>"

text \<open>The HMAC-MD5 authenticator. The digest \<open>hmac.HMAC(key, message).digest()\<close> comes from
  Python's library and is a parameter here, as is the key after its base64 decoding;
  \<open>authid\<close> is still the class attribute of the base class.\<close>

definition OmapiHMACMD5Authenticator ::
  "(bytes \<Rightarrow> bytes \<Rightarrow> bytes) \<Rightarrow> bytes \<Rightarrow> bytes \<Rightarrow> OmapiAuthenticatorBase" where
  "OmapiHMACMD5Authenticator hmac_digest user key =
     \<lparr>authlen = 16, algorithm = Some ''hmac-md5.SIG-ALG.REG.INT.'', authid = - 1,
      auth_object = [(''name'', user), (''algorithm'', ''hmac-md5.SIG-ALG.REG.INT.'')],
      sign = hmac_digest key\<rparr>"

record OmapiMessage =
  authid :: int
  opcode :: int
  handle :: int
  tid :: int
  rid :: int
  message :: dict
  obj :: dict
  signature :: bytes

definition OmapiMessage_init :: OmapiMessage where
  "OmapiMessage_init =
     \<lparr>authid = 0, opcode = 0, handle = 0, tid = 0, rid = 0, message = [], obj = [],
      signature = []\<rparr>"

text \<open>A sequence of statements on one buffer; the first exception ends it.\<close>

fun statements :: "(OutBuffer \<Rightarrow> outcome) list \<Rightarrow> OutBuffer \<Rightarrow> outcome" where
  "statements [] b = (None, b)"
| "statements (f # fs) b = and_then (f b) (statements fs)"

definition as_string :: "bool \<Rightarrow> OmapiMessage \<Rightarrow> error + bytes" where
  "as_string forsigning m =
     (case statements
             ((if \<not> forsigning then [add_net32int (authid m)] else []) @
              [add_net32int (int (length (signature m))),
               add_net32int (opcode m),
               add_net32int (handle m),
               add_net32int (tid m),
               add_net32int (rid m),
               add_bindict (message m),
               add_bindict (obj m)] @
              (if \<not> forsigning then [add (signature m)] else []))
             (OutBuffer [])
      of (None, ret) \<Rightarrow> Inr (getvalue ret)
       | (Some e, ret) \<Rightarrow> Inl e)"

text \<open>\<open>OmapiMessage.sign\<close>: the message as the call leaves it, and the exception if one was
  raised (by \<open>as_string\<close>, or by the final \<open>assert\<close>).\<close>

definition sign_message :: "OmapiAuthenticatorBase \<Rightarrow> OmapiMessage \<Rightarrow> error option \<times> OmapiMessage" where
  "sign_message authenticator m =
     (let m1 = m\<lparr>authid := OmapiAuthenticatorBase.authid authenticator,
                  signature := replicate (nat (authlen authenticator)) (CHR 0x00)\<rparr>
      in case as_string True m1 of
           Inl e \<Rightarrow> (Some e, m1)
         | Inr tosign \<Rightarrow>
             (let m2 = m1\<lparr>signature := sign authenticator tosign\<rparr>
              in if int (length (signature m2)) = authlen authenticator then (None, m2)
                 else (Some AssertionError, m2)))"

definition from_fields ::
  "int \<Rightarrow> int \<Rightarrow> int \<Rightarrow> int \<Rightarrow> int \<Rightarrow> dict \<Rightarrow> dict \<Rightarrow> bytes \<Rightarrow> OmapiMessage" where
  "from_fields authid' opcode' handle' tid' rid' message' obj' signature' =
     \<lparr>authid = authid', opcode = opcode', handle = handle', tid = tid', rid = rid',
      message = message', obj = obj', signature = signature'\<rparr>"

text \<open>\<open>verify\<close>: a missing authenticator is the caught \<open>KeyError\<close>; an exception of
  \<open>as_string\<close> is not caught.\<close>

definition verify :: "(int \<rightharpoonup> OmapiAuthenticatorBase) \<Rightarrow> OmapiMessage \<Rightarrow> error + bool" where
  "verify authenticators m =
     (case authenticators (authid m) of
        None \<Rightarrow> Inr False
      | Some a \<Rightarrow>
          (case as_string True m of
             Inl e \<Rightarrow> Inl e
           | Inr tosign \<Rightarrow> Inr (sign a tosign = signature m)))"

definition is_response :: "OmapiMessage \<Rightarrow> OmapiMessage \<Rightarrow> bool" where
  "is_response self other \<longleftrightarrow> rid self = tid other"

subsection \<open>Python 2 dictionaries\<close>

text \<open>
  \<open>update_object\<close> is given a Python dictionary and appends its \<open>items()\<close>. The source is
  Python 2, where a dictionary is a hash table and \<open>items()\<close> lists it slot by slot. This is
  the dictionary of CPython 2.7 for \<open>str\<close> keys (\<open>Objects/dictobject.c\<close>, \<open>string_hash\<close> of
  \<open>Objects/stringobject.c\<close>) on a platform with a 64-bit \<open>long\<close>, with hash randomisation
  off as it is by default; entries are never deleted here, so there are no dummy slots.
\<close>

definition string_hash :: "bytes \<Rightarrow> nat" where
  "string_hash s =
     (if s = [] then 0
      else let x = foldl (\<lambda>x c. xor ((1000003 * x) mod 2 ^ 64) (of_char c))
                     (push_bit 7 (of_char (hd s))) s;
               y = xor x (length s)
           in if y = 2 ^ 64 - 1 then 2 ^ 64 - 2 else y)"

type_synonym PyDictEntry = "(bytes \<times> bytes) option"

datatype PyDictObject = PyDictObject (ma_table: "PyDictEntry list")

definition PyDict_New :: PyDictObject where
  "PyDict_New = PyDictObject [None, None, None, None, None, None, None, None]"

definition ma_used :: "PyDictEntry list \<Rightarrow> nat" where
  "ma_used table = length (filter (\<lambda>ep. ep \<noteq> None) table)"

text \<open>\<open>lookdict_string\<close>: the slot of the key, or the free slot where it goes. The probe
  sequence has no bound in C; here it is cut off after \<open>fuel\<close> slots.\<close>

fun lookdict :: "nat \<Rightarrow> PyDictEntry list \<Rightarrow> bytes \<Rightarrow> nat \<Rightarrow> nat \<Rightarrow> nat option" where
  "lookdict 0 table key i perturb = None"
| "lookdict (Suc fuel) table key i perturb =
     (case table ! (i mod length table) of
        None \<Rightarrow> Some (i mod length table)
      | Some (k, v) \<Rightarrow>
          if k = key then Some (i mod length table)
          else lookdict fuel table key ((i * 5 + perturb + 1) mod 2 ^ 64) (drop_bit 5 perturb))"

definition insertdict :: "nat \<Rightarrow> PyDictEntry list \<Rightarrow> bytes \<Rightarrow> bytes \<Rightarrow> PyDictEntry list option" where
  "insertdict fuel table key val =
     (case lookdict fuel table key (string_hash key mod length table) (string_hash key) of
        None \<Rightarrow> None
      | Some i \<Rightarrow> Some (table[i := Some (key, val)]))"

text \<open>\<open>dictresize\<close>: the new size, and the old entries put into the new table slot by slot.\<close>

function dict_newsize :: "nat \<Rightarrow> nat \<Rightarrow> nat" where
  "dict_newsize newsize minused =
     (if newsize \<le> minused \<and> 0 < newsize then dict_newsize (2 * newsize) minused else newsize)"
  by pat_completeness auto
termination by (relation "measure (\<lambda>(newsize, minused). Suc minused - newsize)") auto

fun insert_entries :: "nat \<Rightarrow> PyDictEntry list \<Rightarrow> PyDictEntry list \<Rightarrow> PyDictEntry list option" where
  "insert_entries fuel [] table = Some table"
| "insert_entries fuel (None # old) table = insert_entries fuel old table"
| "insert_entries fuel (Some (key, val) # old) table =
     (case insertdict fuel table key val of
        None \<Rightarrow> None
      | Some table' \<Rightarrow> insert_entries fuel old table')"

definition dictresize :: "nat \<Rightarrow> PyDictEntry list \<Rightarrow> nat \<Rightarrow> PyDictEntry list option" where
  "dictresize fuel table minused =
     insert_entries fuel table (replicate (dict_newsize 8 minused) None)"

text \<open>\<open>d[key] = val\<close>.\<close>

definition PyDict_SetItem :: "nat \<Rightarrow> bytes \<Rightarrow> bytes \<Rightarrow> PyDictObject \<Rightarrow> PyDictObject option" where
  "PyDict_SetItem fuel key val mp =
     (case insertdict fuel (ma_table mp) key val of
        None \<Rightarrow> None
      | Some table \<Rightarrow>
          if ma_used (ma_table mp) < ma_used table \<and> length table * 2 \<le> ma_used table * 3
          then map_option PyDictObject
                 (dictresize fuel table ((if 50000 < ma_used table then 2 else 4) * ma_used table))
          else Some (PyDictObject table))"

text \<open>The dictionary that the pairs are inserted into one after the other, starting from an
  empty one: \<open>d = {}; d[k1] = v1; d[k2] = v2; ...\<close>.\<close>

fun dict_of :: "nat \<Rightarrow> (bytes \<times> bytes) list \<Rightarrow> PyDictObject \<Rightarrow> PyDictObject option" where
  "dict_of fuel [] mp = Some mp"
| "dict_of fuel ((key, val) # kvs) mp =
     (case PyDict_SetItem fuel key val mp of None \<Rightarrow> None | Some mp' \<Rightarrow> dict_of fuel kvs mp')"

text \<open>\<open>d.items()\<close> goes through the table, and \<open>key in d\<close> holds for the keys stored.\<close>

definition dict_items :: "PyDictObject \<Rightarrow> (bytes \<times> bytes) list" where
  "dict_items mp = concat (map (\<lambda>ep. case ep of None \<Rightarrow> [] | Some e \<Rightarrow> [e]) (ma_table mp))"

definition dict_contains :: "PyDictObject \<Rightarrow> bytes \<Rightarrow> bool" where
  "dict_contains mp key \<longleftrightarrow> key \<in> fst ` set (dict_items mp)"

subsection \<open>Updating and parsing messages\<close>

definition update_object :: "PyDictObject \<Rightarrow> OmapiMessage \<Rightarrow> OmapiMessage" where
  "update_object update m =
     m\<lparr>obj := [(key, val) \<leftarrow> obj m. \<not> dict_contains update key] @ dict_items update\<rparr>"

definition parse_startup_message where
  "parse_startup_message = parse_chain parse_net32int (\<lambda>_. parse_net32int)"

definition parse_message where
  "parse_message =
     parse_map
       (\<lambda>((((((((authid', authlen'), opcode'), handle'), tid'), rid'), message'), obj'), signature').
          from_fields authid' opcode' handle' tid' rid' message' obj' signature')
       (parse_chain (parse_chain (parse_chain (parse_chain (parse_chain (parse_chain
          (parse_chain (parse_chain
             parse_net32int
             (\<lambda>_. parse_net32int))
             (\<lambda>_. parse_net32int))
             (\<lambda>_. parse_net32int))
             (\<lambda>_. parse_net32int))
             (\<lambda>_. parse_net32int))
             (\<lambda>_. parse_bindict))
             (\<lambda>_. parse_bindict))
             (\<lambda>(((((((authid', authlen'), opcode'), handle'), tid'), rid'), message'), obj').
                parse_fixedbuffer authlen'))"

section \<open>Integer encodings\<close>

lemma unpack_pack_H: "0 \<le> u \<Longrightarrow> u < 65536 \<Longrightarrow> unpack_H (pack_H u) = u"
proof -
  assume a: "0 \<le> u" "u < 65536"
  then have "u div 256 < 256" by simp
  with a have "(u div 256) mod 256 = u div 256" by simp
  then show ?thesis
    by (simp add: unpack_H_def pack_H_def)
qed

lemma be32:
  fixes u :: int
  shows "((u div 16777216 * 256 + u div 65536 mod 256) * 256 + u div 256 mod 256) * 256 + u mod 256 = u"
proof -
  have a: "u div 256 div 256 = u div 65536" "u div 65536 div 256 = u div 16777216"
    by (simp_all add: div_mult2_eq[symmetric])
  have 1: "u = u div 256 * 256 + u mod 256" by simp
  have 2: "u div 256 = u div 65536 * 256 + u div 256 mod 256"
    using div_mult_mod_eq[of "u div 256" 256] unfolding a by simp
  have 3: "u div 65536 = u div 16777216 * 256 + u div 65536 mod 256"
    using div_mult_mod_eq[of "u div 65536" 256] unfolding a by simp
  show ?thesis using 1 2 3 by simp
qed

lemma unpack_pack_L: "0 \<le> u \<Longrightarrow> u < 4294967296 \<Longrightarrow> unpack_L (pack_L u) = u"
proof -
  assume a: "0 \<le> u" "u < 4294967296"
  have b3: "(u div 16777216) mod 256 = u div 16777216" using a by simp
  show ?thesis
    using be32[of u] by (simp add: unpack_L_def pack_L_def b3)
qed

lemma length_pack [simp]: "length (pack_H u) = 2" "length (pack_L u) = 4"
  by (simp_all add: pack_H_def pack_L_def)

lemma slice_to_append [simp]: "slice_to (int (length a)) (a @ r) = a"
  by (simp add: slice_to_def)

lemma slice_from_append [simp]: "slice_from (int (length a)) (a @ r) = r"
  by (simp add: slice_from_def)

lemma fixedbuffer_exact:
  "n = int (length a) \<Longrightarrow>
   resume (parse_fixedbuffer n) g \<lparr>buff = a @ r, totalsize = t\<rparr> = (Inr a, \<lparr>buff = r, totalsize = t\<rparr>)"
  by (simp add: parse_fixedbuffer_def)

lemma net16int_exact:
  "0 \<le> u \<Longrightarrow> u < 65536 \<Longrightarrow>
   resume parse_net16int g \<lparr>buff = pack_H u @ r, totalsize = t\<rparr> = (Inr u, \<lparr>buff = r, totalsize = t\<rparr>)"
  by (simp add: parse_net16int_def parse_map_def fixedbuffer_exact unpack_pack_H)

lemma net32int_exact:
  "0 \<le> u \<Longrightarrow> u < 4294967296 \<Longrightarrow>
   resume parse_net32int g \<lparr>buff = pack_L u @ r, totalsize = t\<rparr> = (Inr u, \<lparr>buff = r, totalsize = t\<rparr>)"
  by (simp add: parse_net32int_def parse_map_def fixedbuffer_exact unpack_pack_L)

text \<open>
  C9. For \<open>u\<close> in \<open>[0, 2^16)\<close> (in \<open>[0, 2^32)\<close>), \<open>add_net16int\<close> (\<open>add_net32int\<close>) on an empty
  buffer succeeds, and \<open>parse_net16int\<close> (\<open>parse_net32int\<close>) on the bytes it wrote, followed by
  any other bytes, yields \<open>u\<close> at its first \<open>next()\<close> and takes exactly those bytes. For an
  integer outside the range both encoders raise \<open>ValueError\<close> and leave the buffer as it was.
\<close>

theorem int_roundtrip_and_reject:
  "(0 \<le> u16 \<and> u16 < 2 ^ 16 \<longrightarrow>
      fst (add_net16int u16 (OutBuffer [])) = None \<and>
      first_next parse_net16int
        \<lparr>buff = getvalue (snd (add_net16int u16 (OutBuffer []))) @ rest, totalsize = t\<rparr>
        = (Inr u16, \<lparr>buff = rest, totalsize = t\<rparr>)) \<and>
   (0 \<le> u32 \<and> u32 < 2 ^ 32 \<longrightarrow>
      fst (add_net32int u32 (OutBuffer [])) = None \<and>
      first_next parse_net32int
        \<lparr>buff = getvalue (snd (add_net32int u32 (OutBuffer []))) @ rest, totalsize = t\<rparr>
        = (Inr u32, \<lparr>buff = rest, totalsize = t\<rparr>)) \<and>
   (bad16 < 0 \<or> 2 ^ 16 \<le> bad16 \<longrightarrow> add_net16int bad16 b = (Some ValueError, b)) \<and>
   (bad32 < 0 \<or> 2 ^ 32 \<le> bad32 \<longrightarrow> add_net32int bad32 b = (Some ValueError, b))"
proof (intro conjI impI)
  assume "0 \<le> u16 \<and> u16 < 2 ^ 16"
  then have r: "0 \<le> u16" "u16 < 65536" by simp_all
  then have enc: "add_net16int u16 (OutBuffer []) = (None, OutBuffer (pack_H u16))"
    by (simp add: add_net16int_def add_def sizelimit_def)
  show "fst (add_net16int u16 (OutBuffer [])) = None" by (simp add: enc)
  show "first_next parse_net16int
        \<lparr>buff = getvalue (snd (add_net16int u16 (OutBuffer []))) @ rest, totalsize = t\<rparr>
        = (Inr u16, \<lparr>buff = rest, totalsize = t\<rparr>)"
    by (simp add: enc first_next_def net16int_exact[OF r])
next
  assume "0 \<le> u32 \<and> u32 < 2 ^ 32"
  then have r: "0 \<le> u32" "u32 < 4294967296" by simp_all
  then have enc: "add_net32int u32 (OutBuffer []) = (None, OutBuffer (pack_L u32))"
    by (simp add: add_net32int_def add_def sizelimit_def)
  show "fst (add_net32int u32 (OutBuffer [])) = None" by (simp add: enc)
  show "first_next parse_net32int
        \<lparr>buff = getvalue (snd (add_net32int u32 (OutBuffer []))) @ rest, totalsize = t\<rparr>
        = (Inr u32, \<lparr>buff = rest, totalsize = t\<rparr>)"
    by (simp add: enc first_next_def net32int_exact[OF r])
next
  assume "bad16 < 0 \<or> 2 ^ 16 \<le> bad16"
  then show "add_net16int bad16 b = (Some ValueError, b)"
    by (auto simp: add_net16int_def)
next
  assume "bad32 < 0 \<or> 2 ^ 32 \<le> bad32"
  then show "add_net32int bad32 b = (Some ValueError, b)"
    by (auto simp: add_net32int_def)
qed

theorem int_roundtrip_and_reject_witness:
  "first_next parse_net16int
        \<lparr>buff = getvalue (snd (add_net16int 4660 (OutBuffer []))) @ ''xy'', totalsize = 7\<rparr>
        = (Inr 4660, \<lparr>buff = ''xy'', totalsize = 7\<rparr>) \<and>
   first_next parse_net32int
        \<lparr>buff = getvalue (snd (add_net32int 305419896 (OutBuffer []))) @ ''xy'', totalsize = 7\<rparr>
        = (Inr 305419896, \<lparr>buff = ''xy'', totalsize = 7\<rparr>) \<and>
   add_net16int 65536 (OutBuffer ''ab'') = (Some ValueError, OutBuffer ''ab'') \<and>
   add_net32int (- 1) (OutBuffer ''ab'') = (Some ValueError, OutBuffer ''ab'')"
  using int_roundtrip_and_reject[of 4660 "''xy''" 7 305419896 65536 "OutBuffer ''ab''" "- 1"]
  by simp

section \<open>What the encoders write\<close>

text \<open>The wire format of the module's docstring: \<open>dictionary = entry* 0x00 0x00\<close>,
  \<open>entry = key (net16str) value (net32str)\<close>.\<close>

definition encode_entry :: "bytes \<times> bytes \<Rightarrow> bytes" where
  "encode_entry e = pack_H (int (length (fst e))) @ fst e @ pack_L (int (length (snd e))) @ snd e"

definition encode_bindict :: "dict \<Rightarrow> bytes" where
  "encode_bindict items = concat (map encode_entry items) @ [CHR 0x00, CHR 0x00]"

definition wellsized :: "dict \<Rightarrow> bool" where
  "wellsized items \<longleftrightarrow> list_all (\<lambda>e. length (fst e) < 65536 \<and> length (snd e) < 4294967296) items"



definition entry_writes :: "bytes \<times> bytes \<Rightarrow> bytes list" where
  "entry_writes e = [pack_H (int (length (fst e))), fst e, pack_L (int (length (snd e))), snd e]"

text \<open>The encode operations of \<open>OutBuffer\<close> as calls, the arguments each of them accepts
  without a \<open>ValueError\<close>, and the writes it then makes.\<close>

datatype OutBuffer_call =
    Add bytes
  | Add_net16int int
  | Add_net32int int
  | Add_net16string bytes
  | Add_net32string bytes
  | Add_bindict dict



fun writes_of :: "OutBuffer_call \<Rightarrow> bytes list" where
  "writes_of (Add data) = [data]"
| "writes_of (Add_net16int i) = [pack_H i]"
| "writes_of (Add_net32int i) = [pack_L i]"
| "writes_of (Add_net16string s) = [pack_H (int (length s)), s]"
| "writes_of (Add_net32string s) = [pack_L (int (length s)), s]"
| "writes_of (Add_bindict items) = concat (map entry_writes items) @ [[CHR 0x00, CHR 0x00]]"











lemma bindict_writes_concat:
  "concat (writes_of (Add_bindict items)) = encode_bindict items"
  by (induction items) (simp_all add: encode_bindict_def encode_entry_def entry_writes_def)







section \<open>Successful encodings\<close>

lemma add_ok:
  "add data b = (None, b') \<longleftrightarrow>
     b' = OutBuffer (getvalue b @ data) \<and> length (getvalue b) + length data \<le> sizelimit"
  by (auto simp: add_def Let_def)

lemma and_then_ok:
  "and_then r f = (None, b') \<longleftrightarrow> (\<exists>b1. r = (None, b1) \<and> f b1 = (None, b'))"
  by (cases r) (auto simp: and_then_def split: option.splits)

lemma net16int_ok:
  "add_net16int i b = (None, b') \<longleftrightarrow>
     0 \<le> i \<and> i < 65536 \<and> b' = OutBuffer (getvalue b @ pack_H i) \<and>
     length (getvalue b) + 2 \<le> sizelimit"
  by (auto simp: add_net16int_def add_ok)

lemma net32int_ok:
  "add_net32int i b = (None, b') \<longleftrightarrow>
     0 \<le> i \<and> i < 4294967296 \<and> b' = OutBuffer (getvalue b @ pack_L i) \<and>
     length (getvalue b) + 4 \<le> sizelimit"
  by (auto simp: add_net32int_def add_ok)

lemma net16string_ok:
  "add_net16string s b = (None, b') \<longleftrightarrow>
     length s < 65536 \<and> b' = OutBuffer (getvalue b @ pack_H (int (length s)) @ s) \<and>
     length (getvalue b) + 2 + length s \<le> sizelimit"
  by (auto simp: add_net16string_def and_then_ok net16int_ok add_ok)

lemma net32string_ok:
  "add_net32string s b = (None, b') \<longleftrightarrow>
     length s < 4294967296 \<and> b' = OutBuffer (getvalue b @ pack_L (int (length s)) @ s) \<and>
     length (getvalue b) + 4 + length s \<le> sizelimit"
  by (auto simp: add_net32string_def and_then_ok net32int_ok add_ok)

lemma entries_ok:
  "add_entries items b = (None, b') \<Longrightarrow>
     wellsized items \<and> b' = OutBuffer (getvalue b @ concat (map encode_entry items))"
proof (induction items arbitrary: b)
  case Nil
  then show ?case by (simp add: wellsized_def)
next
  case (Cons e items)
  obtain k v where e: "e = (k, v)" by (cases e)
  from Cons.prems obtain b1 where
    b1: "and_then (add_net16string k b) (add_net32string v) = (None, b1)"
    and r: "add_entries items b1 = (None, b')"
    by (auto simp: e and_then_ok)
  from b1 have kv: "length k < 65536" "length v < 4294967296"
    and b1v: "b1 = OutBuffer (getvalue b @ encode_entry (k, v))"
    by (auto simp: and_then_ok net16string_ok net32string_ok encode_entry_def)
  from Cons.IH[OF r] kv b1v show ?case
    by (simp add: e wellsized_def)
qed

lemma bindict_ok:
  "add_bindict items b = (None, b') \<Longrightarrow>
     wellsized items \<and> b' = OutBuffer (getvalue b @ encode_bindict items) \<and>
     length (getvalue b') \<le> sizelimit"
  by (auto simp: add_bindict_def and_then_ok add_ok encode_bindict_def dest!: entries_ok)

section \<open>Parsing what was encoded\<close>

lemma first_next_map:
  "first_next p s = (Inr a, s') \<Longrightarrow> first_next (parse_map f p) s = (Inr (f a), s')"
  by (simp add: first_next_def parse_map_def)

lemma first_next_chain:
  "first_next p s = (Inr a, s1) \<Longrightarrow> first_next (q a) s1 = (Inr b, s2) \<Longrightarrow>
     first_next (parse_chain p q) s = (Inr (a, b), s2)"
  by (simp add: first_next_def parse_chain_def)

lemma first_next_fixedbuffer:
  "n = int (length a) \<Longrightarrow>
   first_next (parse_fixedbuffer n) \<lparr>buff = a @ r, totalsize = t\<rparr> = (Inr a, \<lparr>buff = r, totalsize = t\<rparr>)"
  by (simp add: first_next_def fixedbuffer_exact)

lemma first_next_net16int:
  "0 \<le> u \<Longrightarrow> u < 65536 \<Longrightarrow>
   first_next parse_net16int \<lparr>buff = pack_H u @ r, totalsize = t\<rparr> = (Inr u, \<lparr>buff = r, totalsize = t\<rparr>)"
  by (simp add: first_next_def net16int_exact)

lemma first_next_net32int:
  "0 \<le> u \<Longrightarrow> u < 4294967296 \<Longrightarrow>
   first_next parse_net32int \<lparr>buff = pack_L u @ r, totalsize = t\<rparr> = (Inr u, \<lparr>buff = r, totalsize = t\<rparr>)"
  by (simp add: first_next_def net32int_exact)

lemma pack_H_0: "pack_H 0 = [CHR 0x00, CHR 0x00]"
  by (simp add: pack_H_def char_of_def)

lemma first_next_net16string:
  assumes "length s < 65536"
  shows "first_next parse_net16string \<lparr>buff = pack_H (int (length s)) @ s @ r, totalsize = t\<rparr>
           = (Inr s, \<lparr>buff = r, totalsize = t\<rparr>)"
proof -
  have "first_next (parse_chain parse_net16int parse_fixedbuffer)
          \<lparr>buff = pack_H (int (length s)) @ s @ r, totalsize = t\<rparr>
        = (Inr (int (length s), s), \<lparr>buff = r, totalsize = t\<rparr>)"
  proof (rule first_next_chain)
    show "first_next parse_net16int \<lparr>buff = pack_H (int (length s)) @ s @ r, totalsize = t\<rparr>
            = (Inr (int (length s)), \<lparr>buff = s @ r, totalsize = t\<rparr>)"
      using assms by (intro first_next_net16int) simp_all
    show "first_next (parse_fixedbuffer (int (length s))) \<lparr>buff = s @ r, totalsize = t\<rparr>
            = (Inr s, \<lparr>buff = r, totalsize = t\<rparr>)"
      by (rule first_next_fixedbuffer) simp
  qed
  from first_next_map[OF this, of snd] show ?thesis
    by (simp add: parse_net16string_def)
qed

lemma first_next_net32string:
  assumes "length s < 4294967296"
  shows "first_next parse_net32string \<lparr>buff = pack_L (int (length s)) @ s @ r, totalsize = t\<rparr>
           = (Inr s, \<lparr>buff = r, totalsize = t\<rparr>)"
proof -
  have "first_next (parse_chain parse_net32int parse_fixedbuffer)
          \<lparr>buff = pack_L (int (length s)) @ s @ r, totalsize = t\<rparr>
        = (Inr (int (length s), s), \<lparr>buff = r, totalsize = t\<rparr>)"
  proof (rule first_next_chain)
    show "first_next parse_net32int \<lparr>buff = pack_L (int (length s)) @ s @ r, totalsize = t\<rparr>
            = (Inr (int (length s)), \<lparr>buff = s @ r, totalsize = t\<rparr>)"
      using assms by (intro first_next_net32int) simp_all
    show "first_next (parse_fixedbuffer (int (length s))) \<lparr>buff = s @ r, totalsize = t\<rparr>
            = (Inr s, \<lparr>buff = r, totalsize = t\<rparr>)"
      by (rule first_next_fixedbuffer) simp
  qed
  from first_next_map[OF this, of snd] show ?thesis
    by (simp add: parse_net32string_def)
qed

definition nonempty_keys :: "dict \<Rightarrow> bool" where
  "nonempty_keys items \<longleftrightarrow> list_all (\<lambda>e. fst e \<noteq> []) items"

lemma bindict_resume_entries:
  assumes "wellsized items" "nonempty_keys items"
  shows "parse_bindict_resume (entries, Inl (start parse_net16string))
           \<lparr>buff = encode_bindict items @ r, totalsize = t\<rparr>
         = (Inr (entries @ items), \<lparr>buff = r, totalsize = t\<rparr>)"
  using assms
proof (induction items arbitrary: entries)
  case Nil
  have "first_next parse_net16string \<lparr>buff = pack_H (int (length ([]::bytes))) @ [] @ r, totalsize = t\<rparr>
           = (Inr [], \<lparr>buff = r, totalsize = t\<rparr>)"
    by (rule first_next_net16string) simp
  then have "resume parse_net16string (start parse_net16string) \<lparr>buff = [CHR 0x00, CHR 0x00] @ r, totalsize = t\<rparr>
           = (Inr [], \<lparr>buff = r, totalsize = t\<rparr>)"
    by (simp add: first_next_def pack_H_0)
  then show ?case by (simp add: encode_bindict_def)
next
  case (Cons e items)
  obtain k v where e: "e = (k, v)" by (cases e)
  from Cons.prems e have kv: "length k < 65536" "length v < 4294967296" "k \<noteq> []"
    and rest: "wellsized items" "nonempty_keys items"
    by (simp_all add: wellsized_def nonempty_keys_def)
  let ?tail = "encode_bindict items @ r"
  have enc: "encode_bindict (e # items) @ r
      = pack_H (int (length k)) @ k @ pack_L (int (length v)) @ v @ ?tail"
    by (simp add: encode_bindict_def encode_entry_def e)
  have 1: "resume parse_net16string (start parse_net16string)
             \<lparr>buff = pack_H (int (length k)) @ k @ pack_L (int (length v)) @ v @ ?tail, totalsize = t\<rparr>
           = (Inr k, \<lparr>buff = pack_L (int (length v)) @ v @ ?tail, totalsize = t\<rparr>)"
    using first_next_net16string[OF kv(1)] by (simp add: first_next_def)
  have 2: "resume parse_net32string (start parse_net32string)
             \<lparr>buff = pack_L (int (length v)) @ v @ ?tail, totalsize = t\<rparr>
           = (Inr v, \<lparr>buff = ?tail, totalsize = t\<rparr>)"
    using first_next_net32string[OF kv(2)] by (simp add: first_next_def)
  have s1: "parse_bindict_resume (entries, Inl (start parse_net16string))
             \<lparr>buff = pack_H (int (length k)) @ k @ pack_L (int (length v)) @ v @ ?tail, totalsize = t\<rparr>
       = parse_bindict_resume (entries, Inr (k, start parse_net32string))
             \<lparr>buff = pack_L (int (length v)) @ v @ ?tail, totalsize = t\<rparr>"
    by (subst parse_bindict_resume.simps(1)) (simp add: 1 kv(3) del: parse_bindict_resume.simps)
  have s2: "parse_bindict_resume (entries, Inr (k, start parse_net32string))
             \<lparr>buff = pack_L (int (length v)) @ v @ ?tail, totalsize = t\<rparr>
       = parse_bindict_resume (entries @ [(k, v)], Inl (start parse_net16string))
             \<lparr>buff = ?tail, totalsize = t\<rparr>"
    by (subst parse_bindict_resume.simps(2)) (simp add: 2 del: parse_bindict_resume.simps)
  show ?case
    unfolding enc s1 s2 using Cons.IH[OF rest, of "entries @ [(k, v)]"]
    by (simp add: e del: parse_bindict_resume.simps)
qed

lemma first_next_bindict:
  "wellsized items \<Longrightarrow> nonempty_keys items \<Longrightarrow>
   first_next parse_bindict \<lparr>buff = encode_bindict items @ r, totalsize = t\<rparr>
     = (Inr items, \<lparr>buff = r, totalsize = t\<rparr>)"
  using bindict_resume_entries[of items "[]" r t]
  by (simp add: first_next_def parse_bindict_def)

text \<open>
  C3. For a dictionary whose keys are non-empty and at most 65535 bytes long and whose values
  are shorter than \<open>2^32\<close> bytes, and whose encoding by \<open>add_bindict\<close> on an empty buffer
  succeeds: \<open>feed\<close> takes the encoding, and \<open>parse_bindict\<close>, on a buffer that starts with it,
  yields the same pairs in the same order at its first \<open>next()\<close>, leaving what follows the
  encoding.
\<close>

theorem bindict_roundtrip:
  assumes "\<forall>(k, v) \<in> set D. k \<noteq> [] \<and> length k \<le> 65535 \<and> length v < 2 ^ 32"
    and "add_bindict D (OutBuffer []) = (None, b')"
  shows "feed (getvalue b') InBuffer_init
           = (None, \<lparr>buff = getvalue b', totalsize = length (getvalue b')\<rparr>) \<and>
         first_next parse_bindict \<lparr>buff = getvalue b' @ rest, totalsize = t\<rparr>
           = (Inr D, \<lparr>buff = rest, totalsize = t\<rparr>)"
proof -
  from bindict_ok[OF assms(2)] have ws: "wellsized D"
    and enc: "getvalue b' = encode_bindict D" and len: "length (getvalue b') \<le> sizelimit"
    by auto
  from assms(1) have ne: "nonempty_keys D"
    by (auto simp: nonempty_keys_def list_all_iff)
  have "feed (getvalue b') InBuffer_init
           = (None, \<lparr>buff = getvalue b', totalsize = length (getvalue b')\<rparr>)"
    using len by (simp add: feed_def InBuffer_init_def Let_def)
  with first_next_bindict[OF ws ne, of rest t] show ?thesis
    by (simp add: enc)
qed

theorem bindict_roundtrip_witness:
  "first_next parse_bindict
     \<lparr>buff = getvalue (snd (add_bindict [(''foo'', ''bar''), (''k'', '''')] (OutBuffer []))) @ ''rest'', totalsize = 3\<rparr>
     = (Inr [(''foo'', ''bar''), (''k'', '''')], \<lparr>buff = ''rest'', totalsize = 3\<rparr>)"
proof -
  have ok: "add_bindict [(''foo'', ''bar''), (''k'', '''')] (OutBuffer [])
      = (None, snd (add_bindict [(''foo'', ''bar''), (''k'', '''')] (OutBuffer [])))"
    by (simp add: add_bindict_def add_net16string_def add_net32string_def add_net16int_def
        add_net32int_def add_def and_then_def sizelimit_def)
  have "\<forall>(k, v) \<in> set [(''foo'', ''bar''), (''k'', '''')]. k \<noteq> [] \<and> length k \<le> 65535 \<and> length v < 2 ^ 32"
    by simp
  from bindict_roundtrip[OF this ok, of "''rest''" 3] show ?thesis by simp
qed

section \<open>Messages on the wire\<close>

lemma statements_ok_Cons:
  "statements (f # fs) b = (None, b') \<longleftrightarrow> (\<exists>b1. f b = (None, b1) \<and> statements fs b1 = (None, b'))"
  by (simp add: and_then_ok)

lemma statements_ok_Nil: "statements [] b = (None, b') \<longleftrightarrow> b' = b"
  by auto

text \<open>The bytes of a message between \<open>authid\<close> and the signature: what is signed.\<close>

definition signed_part :: "OmapiMessage \<Rightarrow> bytes" where
  "signed_part m =
     pack_L (int (length (signature m))) @ pack_L (opcode m) @ pack_L (handle m) @
     pack_L (tid m) @ pack_L (rid m) @ encode_bindict (message m) @ encode_bindict (obj m)"

definition u32 :: "int \<Rightarrow> bool" where
  "u32 i \<longleftrightarrow> 0 \<le> i \<and> i < 4294967296"

lemma as_string_signing_ok:
  assumes "as_string True m = Inr bs"
  shows "bs = signed_part m \<and> length (signature m) < 4294967296 \<and>
         u32 (opcode m) \<and> u32 (handle m) \<and> u32 (tid m) \<and> u32 (rid m) \<and>
         wellsized (message m) \<and> wellsized (obj m)"
proof -
  from assms obtain ret where
    "statements
       [add_net32int (int (length (signature m))), add_net32int (opcode m),
        add_net32int (handle m), add_net32int (tid m), add_net32int (rid m),
        add_bindict (message m), add_bindict (obj m)] (OutBuffer []) = (None, ret)"
    and bs: "bs = getvalue ret"
    by (auto simp: as_string_def split: prod.splits option.splits)
  then obtain b1 b2 b3 b4 b5 b6 where
    1: "add_net32int (int (length (signature m))) (OutBuffer []) = (None, b1)" and
    2: "add_net32int (opcode m) b1 = (None, b2)" and
    3: "add_net32int (handle m) b2 = (None, b3)" and
    4: "add_net32int (tid m) b3 = (None, b4)" and
    5: "add_net32int (rid m) b4 = (None, b5)" and
    6: "add_bindict (message m) b5 = (None, b6)" and
    7: "add_bindict (obj m) b6 = (None, ret)"
    unfolding statements_ok_Cons statements_ok_Nil by blast
  from 1 2 3 4 5 have "getvalue b5 = pack_L (int (length (signature m))) @ pack_L (opcode m) @
      pack_L (handle m) @ pack_L (tid m) @ pack_L (rid m)"
    and "length (signature m) < 4294967296" "u32 (opcode m)" "u32 (handle m)" "u32 (tid m)" "u32 (rid m)"
    by (auto simp: net32int_ok u32_def)
  moreover from bindict_ok[OF 6] bindict_ok[OF 7]
  have "wellsized (message m)" "wellsized (obj m)"
    "getvalue ret = getvalue b5 @ encode_bindict (message m) @ encode_bindict (obj m)"
    by auto
  ultimately show ?thesis by (simp add: bs signed_part_def)
qed

lemma as_string_full_ok:
  assumes "as_string False m = Inr bs"
  shows "bs = pack_L (authid m) @ signed_part m @ signature m \<and> u32 (authid m) \<and>
         length (signature m) < 4294967296 \<and>
         u32 (opcode m) \<and> u32 (handle m) \<and> u32 (tid m) \<and> u32 (rid m) \<and>
         wellsized (message m) \<and> wellsized (obj m)"
proof -
  from assms obtain ret where
    "statements
       [add_net32int (authid m),
        add_net32int (int (length (signature m))), add_net32int (opcode m),
        add_net32int (handle m), add_net32int (tid m), add_net32int (rid m),
        add_bindict (message m), add_bindict (obj m), add (signature m)] (OutBuffer []) = (None, ret)"
    and bs: "bs = getvalue ret"
    by (auto simp: as_string_def split: prod.splits option.splits)
  then obtain b0 b1 b2 b3 b4 b5 b6 b7 where
    0: "add_net32int (authid m) (OutBuffer []) = (None, b0)" and
    1: "add_net32int (int (length (signature m))) b0 = (None, b1)" and
    2: "add_net32int (opcode m) b1 = (None, b2)" and
    3: "add_net32int (handle m) b2 = (None, b3)" and
    4: "add_net32int (tid m) b3 = (None, b4)" and
    5: "add_net32int (rid m) b4 = (None, b5)" and
    6: "add_bindict (message m) b5 = (None, b6)" and
    7: "add_bindict (obj m) b6 = (None, b7)" and
    8: "add (signature m) b7 = (None, ret)"
    unfolding statements_ok_Cons statements_ok_Nil by blast
  from 0 1 2 3 4 5 have "getvalue b5 = pack_L (authid m) @ pack_L (int (length (signature m))) @
      pack_L (opcode m) @ pack_L (handle m) @ pack_L (tid m) @ pack_L (rid m)"
    and "u32 (authid m)"
    and "length (signature m) < 4294967296" "u32 (opcode m)" "u32 (handle m)" "u32 (tid m)" "u32 (rid m)"
    by (auto simp: net32int_ok u32_def)
  moreover from bindict_ok[OF 6] bindict_ok[OF 7]
  have "wellsized (message m)" "wellsized (obj m)"
    "getvalue b7 = getvalue b5 @ encode_bindict (message m) @ encode_bindict (obj m)"
    by auto
  moreover from 8 have "getvalue ret = getvalue b7 @ signature m" by (auto simp: add_ok)
  ultimately show ?thesis by (simp add: bs signed_part_def)
qed

lemma first_next_message:
  assumes "u32 (authid m)" "length (signature m) < 4294967296"
    "u32 (opcode m)" "u32 (handle m)" "u32 (tid m)" "u32 (rid m)"
    "wellsized (message m)" "wellsized (obj m)"
    "nonempty_keys (message m)" "nonempty_keys (obj m)"
  shows "first_next parse_message
           \<lparr>buff = pack_L (authid m) @ signed_part m @ signature m @ rest, totalsize = t\<rparr>
         = (Inr m, \<lparr>buff = rest, totalsize = t\<rparr>)"
proof -
  let ?sig = "signature m @ rest"
  let ?o = "encode_bindict (obj m) @ ?sig"
  let ?m = "encode_bindict (message m) @ ?o"
  let ?r = "pack_L (rid m) @ ?m"
  let ?t = "pack_L (tid m) @ ?r"
  let ?h = "pack_L (handle m) @ ?t"
  let ?op = "pack_L (opcode m) @ ?h"
  let ?l = "pack_L (int (length (signature m))) @ ?op"
  let ?S = "\<lambda>bs. \<lparr>buff = bs, totalsize = t\<rparr>"
  have whole: "pack_L (authid m) @ signed_part m @ signature m @ rest = pack_L (authid m) @ ?l"
    by (simp add: signed_part_def)
  have 1: "first_next parse_net32int (?S (pack_L (authid m) @ ?l)) = (Inr (authid m), ?S ?l)"
    using assms(1) by (intro first_next_net32int) (simp_all add: u32_def)
  have 2: "first_next parse_net32int (?S ?l) = (Inr (int (length (signature m))), ?S ?op)"
    using assms(2) by (intro first_next_net32int) simp_all
  have 3: "first_next parse_net32int (?S ?op) = (Inr (opcode m), ?S ?h)"
    using assms(3) by (intro first_next_net32int) (simp_all add: u32_def)
  have 4: "first_next parse_net32int (?S ?h) = (Inr (handle m), ?S ?t)"
    using assms(4) by (intro first_next_net32int) (simp_all add: u32_def)
  have 5: "first_next parse_net32int (?S ?t) = (Inr (tid m), ?S ?r)"
    using assms(5) by (intro first_next_net32int) (simp_all add: u32_def)
  have 6: "first_next parse_net32int (?S ?r) = (Inr (rid m), ?S ?m)"
    using assms(6) by (intro first_next_net32int) (simp_all add: u32_def)
  have 7: "first_next parse_bindict (?S ?m) = (Inr (message m), ?S ?o)"
    by (rule first_next_bindict[OF assms(7) assms(9)])
  have 8: "first_next parse_bindict (?S ?o) = (Inr (obj m), ?S ?sig)"
    by (rule first_next_bindict[OF assms(8) assms(10)])
  have 9: "first_next (parse_fixedbuffer (int (length (signature m)))) (?S ?sig)
             = (Inr (signature m), ?S rest)"
    by (rule first_next_fixedbuffer) simp
  note c = first_next_chain
  have c2: "first_next (parse_chain parse_net32int (\<lambda>_. parse_net32int)) (?S (pack_L (authid m) @ ?l))
      = (Inr (authid m, int (length (signature m))), ?S ?op)"
    by (rule c[OF 1]) (rule 2)
  have c3: "first_next (parse_chain (parse_chain parse_net32int (\<lambda>_. parse_net32int)) (\<lambda>_. parse_net32int))
      (?S (pack_L (authid m) @ ?l))
      = (Inr ((authid m, int (length (signature m))), opcode m), ?S ?h)"
    by (rule c[OF c2]) (rule 3)
  note c4 = c[OF c3, where q="\<lambda>_. parse_net32int", OF 4]
  note c5 = c[OF c4, where q="\<lambda>_. parse_net32int", OF 5]
  note c6 = c[OF c5, where q="\<lambda>_. parse_net32int", OF 6]
  note c7 = c[OF c6, where q="\<lambda>_. parse_bindict", OF 7]
  note c8 = c[OF c7, where q="\<lambda>_. parse_bindict", OF 8]
  have c9: "first_next
      (parse_chain (parse_chain (parse_chain (parse_chain (parse_chain (parse_chain
          (parse_chain (parse_chain
             parse_net32int
             (\<lambda>_. parse_net32int))
             (\<lambda>_. parse_net32int))
             (\<lambda>_. parse_net32int))
             (\<lambda>_. parse_net32int))
             (\<lambda>_. parse_net32int))
             (\<lambda>_. parse_bindict))
             (\<lambda>_. parse_bindict))
             (\<lambda>(((((((authid', authlen'), opcode'), handle'), tid'), rid'), message'), obj').
                parse_fixedbuffer authlen'))
      (?S (pack_L (authid m) @ ?l))
      = (Inr ((((((((authid m, int (length (signature m))), opcode m), handle m), tid m), rid m),
               message m), obj m), signature m), ?S rest)"
    by (rule c[OF c8]) (simp add: 9)
  have ff: "from_fields (authid m) (opcode m) (handle m) (tid m) (rid m) (message m) (obj m) (signature m) = m"
    by (simp add: from_fields_def)
  have "first_next parse_message (?S (pack_L (authid m) @ ?l))
      = (Inr (from_fields (authid m) (opcode m) (handle m) (tid m) (rid m) (message m) (obj m)
               (signature m)), ?S rest)"
    using first_next_map[OF c9, of "\<lambda>((((((((authid', authlen'), opcode'), handle'), tid'), rid'), message'), obj'), signature').
          from_fields authid' opcode' handle' tid' rid' message' obj' signature'"]
    by (simp only: parse_message_def prod.case)
  then show ?thesis
    by (simp only: whole ff)
qed

text \<open>
  C7. When \<open>as_string\<close> (full form) of a message whose dictionaries have no empty key succeeds,
  \<open>parse_message\<close> on a buffer that starts with the result yields, at its first \<open>next()\<close>, a
  message equal to the original in all eight fields (the record has no others: \<open>authlen\<close> is
  not kept), and leaves what follows: it has taken exactly \<open>len(signature)\<close> bytes of
  signature. This holds for every signature, the all-zero one of the claim included.
\<close>

theorem message_roundtrip:
  assumes "nonempty_keys (message m)" "nonempty_keys (obj m)"
    and "as_string False m = Inr bs"
  shows "first_next parse_message \<lparr>buff = bs @ rest, totalsize = t\<rparr>
           = (Inr m, \<lparr>buff = rest, totalsize = t\<rparr>)"
proof -
  from as_string_full_ok[OF assms(3)] first_next_message[of m rest t] assms(1,2)
  show ?thesis by simp
qed


definition example_message :: OmapiMessage where
  "example_message =
     \<lparr>authid = 5, opcode = 3, handle = 66051, tid = 4294967295, rid = 7,
      message = [(''type'', ''host'')],
      obj = [(''ip-address'', [CHR 0xC0, CHR 0x00, CHR 0x02, CHR 0x07]), (''name'', [])],
      signature = replicate 16 (CHR 0x00)\<rparr>"

theorem message_roundtrip_witness:
  "signature example_message = replicate 16 (CHR 0x00) \<and>
   \<not> isl (as_string False example_message) \<and>
   first_next parse_message
     \<lparr>buff = projr (as_string False example_message) @ ''tail'', totalsize = 0\<rparr>
     = (Inr example_message, \<lparr>buff = ''tail'', totalsize = 0\<rparr>)"
proof -
  have ok: "\<not> isl (as_string False example_message)"
    by (simp add: example_message_def as_string_def add_bindict_def add_net16string_def
        add_net32string_def add_net16int_def add_net32int_def add_def and_then_def sizelimit_def)
  then have enc: "as_string False example_message = Inr (projr (as_string False example_message))"
    by (cases "as_string False example_message") simp_all
  have ne: "nonempty_keys (message example_message)" "nonempty_keys (obj example_message)"
    by (simp_all add: example_message_def nonempty_keys_def)
  have sg: "signature example_message = replicate 16 (CHR 0x00)"
    by (simp add: example_message_def)
  from message_roundtrip[OF ne enc, of "''tail''" 0] ok sg show ?thesis
    by blast
qed

section \<open>Signing and verification\<close>

lemma as_string_signing_cong:
  "length sg = length (signature m) \<Longrightarrow>
     as_string True (m\<lparr>authid := aid, signature := sg\<rparr>) = as_string True m"
  by (simp add: as_string_def)

lemma sign_message_ok:
  assumes "sign_message a m = (None, m1)"
  obtains tosign where
    "as_string True (m\<lparr>authid := OmapiAuthenticatorBase.authid a,
                       signature := replicate (nat (authlen a)) (CHR 0x00)\<rparr>) = Inr tosign"
    "m1 = m\<lparr>authid := OmapiAuthenticatorBase.authid a, signature := sign a tosign\<rparr>"
    "int (length (sign a tosign)) = authlen a"
    "as_string True m1 = Inr tosign"
proof -
  let ?mz = "m\<lparr>authid := OmapiAuthenticatorBase.authid a,
                 signature := replicate (nat (authlen a)) (CHR 0x00)\<rparr>"
  from assms obtain tosign where t: "as_string True ?mz = Inr tosign"
    and m1: "m1 = ?mz\<lparr>signature := sign a tosign\<rparr>"
    and len: "int (length (sign a tosign)) = authlen a"
    by (auto simp: sign_message_def Let_def split: sum.splits if_splits)
  from len have "length (sign a tosign) = length (signature ?mz)" by simp
  from as_string_signing_cong[OF this, of "authid ?mz"] t
  have "as_string True m1 = Inr tosign" by (simp add: m1)
  with t m1 len show ?thesis by (intro that[of tosign]) simp_all
qed

text \<open>
  C8. When \<open>sign\<close> with an authenticator succeeds on a message, a second \<open>sign\<close> with the same
  authenticator succeeds too and leaves the message as the first one left it, so the full
  serialization is the same after both; and the signature has the authenticator's
  \<open>authlen\<close> bytes. The authenticator is any record with a \<open>sign\<close> function, the null and the
  HMAC-MD5 authenticator among them.
\<close>

theorem sign_twice:
  assumes "sign_message a m = (None, m1)"
  shows "sign_message a m1 = (None, m1) \<and>
         as_string False (snd (sign_message a m1)) = as_string False m1 \<and>
         int (length (signature m1)) = authlen a"
proof -
  from assms obtain tosign where
    t: "as_string True (m\<lparr>authid := OmapiAuthenticatorBase.authid a,
                       signature := replicate (nat (authlen a)) (CHR 0x00)\<rparr>) = Inr tosign"
    and m1: "m1 = m\<lparr>authid := OmapiAuthenticatorBase.authid a, signature := sign a tosign\<rparr>"
    and len: "int (length (sign a tosign)) = authlen a"
    by (rule sign_message_ok)
  have "sign_message a m1 = (None, m1)"
    by (simp add: sign_message_def m1 t len)
  then show ?thesis by (simp add: m1 len)
qed

text \<open>An HMAC-MD5 authenticator whose digest is a stand-in (16 bytes taken from the reversed
  message and the key), to run \<open>sign\<close> on; the handshake has given it the id 9.\<close>

definition example_authenticator :: OmapiAuthenticatorBase where
  "example_authenticator =
     (OmapiHMACMD5Authenticator (\<lambda>key msg. take 16 (rev msg @ key)) ''user'' ''0123456789abcdef'')
       \<lparr>OmapiAuthenticatorBase.authid := 9\<rparr>"

definition example_signed :: OmapiMessage where
  "example_signed = snd (sign_message example_authenticator example_message)"

lemma example_signed_ok: "sign_message example_authenticator example_message = (None, example_signed)"
proof -
  have "fst (sign_message example_authenticator example_message) = None"
    by (simp add: sign_message_def example_authenticator_def OmapiHMACMD5Authenticator_def
        example_message_def as_string_def
        add_bindict_def add_net16string_def add_net32string_def add_net16int_def add_net32int_def
        add_def and_then_def sizelimit_def)
  then show ?thesis by (simp add: example_signed_def prod_eq_iff)
qed

theorem sign_twice_witness:
  "sign_message example_authenticator example_message = (None, example_signed) \<and>
   sign_message example_authenticator example_signed = (None, example_signed) \<and>
   int (length (signature example_signed)) = 16 \<and>
   sign_message OmapiNullAuthenticator (snd (sign_message OmapiNullAuthenticator example_message))
     = sign_message OmapiNullAuthenticator example_message"
proof -
  have s: "sign_message OmapiNullAuthenticator example_message
     = (None, example_message\<lparr>authid := 0, signature := []\<rparr>)"
    by (simp add: sign_message_def OmapiNullAuthenticator_def example_message_def as_string_def
        add_bindict_def add_net16string_def add_net32string_def add_net16int_def add_net32int_def
        add_def and_then_def sizelimit_def)
  have "authlen example_authenticator = 16"
    by (simp add: example_authenticator_def OmapiHMACMD5Authenticator_def)
  with sign_twice[OF example_signed_ok] sign_twice[OF s] s example_signed_ok show ?thesis by simp
qed

text \<open>The fields that \<open>as_string(forsigning=True)\<close> serializes besides the signature's
  length.\<close>

definition payload :: "OmapiMessage \<Rightarrow> int \<times> int \<times> int \<times> int \<times> dict \<times> dict" where
  "payload m = (opcode m, handle m, tid m, rid m, message m, obj m)"

lemma signed_part_inj:
  assumes m: "length (signature m) < 4294967296" "u32 (opcode m)" "u32 (handle m)" "u32 (tid m)"
      "u32 (rid m)" "wellsized (message m)" "wellsized (obj m)"
      "nonempty_keys (message m)" "nonempty_keys (obj m)"
    and m': "length (signature m') < 4294967296" "u32 (opcode m')" "u32 (handle m')" "u32 (tid m')"
      "u32 (rid m')" "wellsized (message m')" "wellsized (obj m')"
      "nonempty_keys (message m')" "nonempty_keys (obj m')"
    and eq: "signed_part m = signed_part m'"
  shows "payload m = payload m' \<and> length (signature m) = length (signature m')"
proof -
  let ?n = "length (signature m)" and ?n' = "length (signature m')"
  let ?z = "\<lambda>k. replicate k (CHR 0x00)"
  let ?m0 = "m\<lparr>authid := 0, signature := ?z ?n\<rparr>"
  let ?m0' = "m'\<lparr>authid := 0, signature := ?z ?n'\<rparr>"
  have sp: "signed_part ?m0 = signed_part m" "signed_part ?m0' = signed_part m'"
    by (simp_all add: signed_part_def)
  have "first_next parse_message
          \<lparr>buff = pack_L (authid ?m0) @ signed_part ?m0 @ signature ?m0 @ ?z ?n', totalsize = 0\<rparr>
        = (Inr ?m0, \<lparr>buff = ?z ?n', totalsize = 0\<rparr>)"
    using m by (intro first_next_message) (simp_all add: u32_def)
  then have 1: "first_next parse_message
          \<lparr>buff = pack_L 0 @ signed_part m @ ?z (?n + ?n'), totalsize = 0\<rparr>
        = (Inr ?m0, \<lparr>buff = ?z ?n', totalsize = 0\<rparr>)"
    by (simp add: sp replicate_add)
  have "first_next parse_message
          \<lparr>buff = pack_L (authid ?m0') @ signed_part ?m0' @ signature ?m0' @ ?z ?n, totalsize = 0\<rparr>
        = (Inr ?m0', \<lparr>buff = ?z ?n, totalsize = 0\<rparr>)"
    using m' by (intro first_next_message) (simp_all add: u32_def)
  then have 2: "first_next parse_message
          \<lparr>buff = pack_L 0 @ signed_part m' @ ?z (?n' + ?n), totalsize = 0\<rparr>
        = (Inr ?m0', \<lparr>buff = ?z ?n, totalsize = 0\<rparr>)"
    by (simp add: sp replicate_add)
  from 1 2 eq have e: "?m0 = ?m0'" and "?z ?n' = ?z ?n"
    by (simp_all add: add.commute)
  from e have "opcode ?m0 = opcode ?m0'" "handle ?m0 = handle ?m0'" "tid ?m0 = tid ?m0'"
    "rid ?m0 = rid ?m0'" "message ?m0 = message ?m0'" "obj ?m0 = obj ?m0'"
    "signature ?m0 = signature ?m0'"
    by simp_all
  then show ?thesis by (simp add: payload_def)
qed

lemma as_string_signing_inj:
  assumes "as_string True m = Inr bs" "as_string True m' = Inr bs"
    "nonempty_keys (message m)" "nonempty_keys (obj m)"
    "nonempty_keys (message m')" "nonempty_keys (obj m')"
  shows "payload m = payload m' \<and> length (signature m) = length (signature m')"
proof -
  from as_string_signing_ok[OF assms(1)] as_string_signing_ok[OF assms(2)] assms(3-)
  show ?thesis by (intro signed_part_inj) simp_all
qed


lemma verify_with:
  "authenticators (authid m) = Some a \<Longrightarrow> as_string True m = Inr bs \<Longrightarrow>
     verify authenticators m = Inr (sign a bs = signature m)"
  by (simp add: verify_def)

text \<open>
  C2, as the code has it. (1) \<open>as_string(forsigning=True)\<close> does not depend on \<open>authid\<close>, and
  depends on the signature only through its length. (2) After a successful \<open>sign\<close> with an
  authenticator, \<open>verify\<close> succeeds for every \<open>authid\<close> under which that authenticator is
  registered, whatever \<open>authid\<close> was changed to; \<open>verify\<close> picks the authenticator by
  \<open>authid\<close>. (3) Changing any of \<open>opcode\<close>, \<open>handle\<close>, \<open>tid\<close>, \<open>rid\<close>, \<open>message\<close>, \<open>obj\<close> of
  the signed message (dictionaries without empty keys) changes the bytes that are signed;
  \<open>verify\<close> then returns whether the authenticator's \<open>sign\<close> gives the old and the new bytes
  the same signature.
\<close>

theorem signature_covers_payload:
  "(length sg = length (signature m) \<longrightarrow>
      as_string True (m\<lparr>authid := aid, signature := sg\<rparr>) = as_string True m) \<and>
   (sign_message a m = (None, m1) \<and> authenticators aid = Some a \<longrightarrow>
      verify authenticators (m1\<lparr>authid := aid\<rparr>) = Inr True) \<and>
   (sign_message a m = (None, m1) \<and> authenticators (authid m1) = Some a \<and>
    authid m' = authid m1 \<and> signature m' = signature m1 \<and> payload m' \<noteq> payload m1 \<and>
    nonempty_keys (message m1) \<and> nonempty_keys (obj m1) \<and>
    nonempty_keys (message m') \<and> nonempty_keys (obj m') \<and>
    as_string True m' = Inr bs' \<longrightarrow>
      (\<exists>bs. as_string True m1 = Inr bs \<and> bs' \<noteq> bs \<and>
            verify authenticators m' = Inr (sign a bs' = sign a bs)))"
proof (intro conjI impI)
  assume "length sg = length (signature m)"
  then show "as_string True (m\<lparr>authid := aid, signature := sg\<rparr>) = as_string True m"
    by (rule as_string_signing_cong)
next
  assume a: "sign_message a m = (None, m1) \<and> authenticators aid = Some a"
  then obtain tosign where t: "as_string True m1 = Inr tosign"
    and m1: "m1 = m\<lparr>authid := OmapiAuthenticatorBase.authid a, signature := sign a tosign\<rparr>"
    by (auto elim: sign_message_ok)
  have "as_string True (m1\<lparr>authid := aid\<rparr>) = Inr tosign"
    using as_string_signing_cong[of "signature m1" m1 aid] t by simp
  moreover have "signature (m1\<lparr>authid := aid\<rparr>) = sign a tosign" by (simp add: m1)
  ultimately show "verify authenticators (m1\<lparr>authid := aid\<rparr>) = Inr True"
    using a by (simp add: verify_def)
next
  assume a: "sign_message a m = (None, m1) \<and> authenticators (authid m1) = Some a \<and>
    authid m' = authid m1 \<and> signature m' = signature m1 \<and> payload m' \<noteq> payload m1 \<and>
    nonempty_keys (message m1) \<and> nonempty_keys (obj m1) \<and>
    nonempty_keys (message m') \<and> nonempty_keys (obj m') \<and>
    as_string True m' = Inr bs'"
  then obtain tosign where t: "as_string True m1 = Inr tosign"
    and m1: "m1 = m\<lparr>authid := OmapiAuthenticatorBase.authid a, signature := sign a tosign\<rparr>"
    by (auto elim: sign_message_ok)
  have sg: "signature m' = sign a tosign" using a by (simp add: m1)
  have ne: "bs' \<noteq> tosign"
  proof
    assume "bs' = tosign"
    with a t have "as_string True m' = Inr tosign" by simp
    from as_string_signing_inj[OF this t] a show False by simp
  qed
  have v: "verify authenticators m' = Inr (sign a bs' = sign a tosign)"
    using verify_with[of authenticators m' a bs'] a sg by simp
  show "\<exists>bs. as_string True m1 = Inr bs \<and> bs' \<noteq> bs \<and>
            verify authenticators m' = Inr (sign a bs' = sign a bs)"
    using t ne v by blast
qed


lemma example_signed_value:
  "example_signed = example_message
     \<lparr>authid := 9,
      signature := [CHR 0x00, CHR 0x00, CHR 0x00, CHR 0x00, CHR 0x00, CHR 0x00,
       CHR ''e'', CHR ''m'', CHR ''a'', CHR ''n'', CHR 0x04, CHR 0x00,
       CHR 0x07, CHR 0x02, CHR 0x00, CHR 0xC0]\<rparr>"
  by (simp add: example_signed_def sign_message_def example_authenticator_def
      OmapiHMACMD5Authenticator_def example_message_def as_string_def
      add_bindict_def add_net16string_def add_net32string_def add_net16int_def add_net32int_def
      add_def and_then_def sizelimit_def pack_H_def pack_L_def char_of_def)

definition example_tampered :: OmapiMessage where
  "example_tampered =
     example_signed\<lparr>obj := [(''ip-address'', [CHR 0xC0, CHR 0x00, CHR 0x02, CHR 0x08]), (''name'', [])]\<rparr>"

lemma example_tampered_string: "\<not> isl (as_string True example_tampered)"
  by (simp add: example_tampered_def example_signed_value example_message_def as_string_def
      add_bindict_def add_net16string_def add_net32string_def add_net16int_def add_net32int_def
      add_def and_then_def sizelimit_def)

theorem signature_covers_payload_witness:
  "as_string True (example_message\<lparr>authid := 4, signature := replicate 16 (CHR ''x'')\<rparr>)
     = as_string True example_message \<and>
   verify [9 \<mapsto> example_authenticator, 4 \<mapsto> example_authenticator] (example_signed\<lparr>authid := 4\<rparr>)
     = Inr True \<and>
   projr (as_string True example_tampered) \<noteq> projr (as_string True example_signed) \<and>
   verify [9 \<mapsto> example_authenticator, 4 \<mapsto> example_authenticator] example_tampered
     = Inr (sign example_authenticator (projr (as_string True example_tampered))
            = sign example_authenticator (projr (as_string True example_signed)))"
proof -
  let ?auths = "[9 \<mapsto> example_authenticator, 4 \<mapsto> example_authenticator]"
  have h1: "length (replicate 16 (CHR ''x'')) = length (signature example_message)"
    by (simp add: example_message_def)
  have h3: "?auths 4 = Some example_authenticator"
    "?auths (authid example_signed) = Some example_authenticator"
    by (simp_all add: example_signed_value)
  have h4: "authid example_tampered = authid example_signed"
    "signature example_tampered = signature example_signed"
    by (simp_all add: example_tampered_def)
  have h5: "payload example_tampered \<noteq> payload example_signed"
    by (simp add: payload_def example_tampered_def example_signed_value example_message_def)
  have h6: "nonempty_keys (message example_signed)" "nonempty_keys (obj example_signed)"
    "nonempty_keys (message example_tampered)" "nonempty_keys (obj example_tampered)"
    by (simp_all add: nonempty_keys_def example_tampered_def example_signed_value example_message_def)
  have h7: "as_string True example_tampered = Inr (projr (as_string True example_tampered))"
    using example_tampered_string by (cases "as_string True example_tampered") simp_all
  from signature_covers_payload[of "replicate 16 (CHR ''x'')" example_message 4
      example_authenticator example_signed ?auths example_tampered
      "projr (as_string True example_tampered)"]
    h1 example_signed_ok h3 h4 h5 h6 h7
  show ?thesis by auto
qed

text \<open>
  C2 as stated fails for the null authenticator: its \<open>sign\<close> returns the empty string for
  every input, so a message signed with it still verifies after \<open>opcode\<close> has been changed.
\<close>

theorem null_signature_counterexample:
  "sign_message OmapiNullAuthenticator example_message
     = (None, example_message\<lparr>authid := 0, signature := []\<rparr>) \<and>
   verify [0 \<mapsto> OmapiNullAuthenticator] (example_message\<lparr>authid := 0, signature := []\<rparr>)
     = Inr True \<and>
   verify [0 \<mapsto> OmapiNullAuthenticator]
     (example_message\<lparr>authid := 0, signature := [], opcode := 6\<rparr>) = Inr True"
  by (simp add: sign_message_def verify_def OmapiNullAuthenticator_def example_message_def
      as_string_def add_bindict_def add_net16string_def add_net32string_def add_net16int_def
      add_net32int_def add_def and_then_def sizelimit_def)

section \<open>Object update\<close>

text \<open>
  C6, as the code has it. \<open>update_object\<close> with the dictionary \<open>d\<close>: the new \<open>obj\<close> is the old
  one without the entries whose key is a key of \<open>d\<close>, in their old order, followed by the
  pairs of \<open>d\<close> in the order \<open>d.items()\<close> lists them, which is the order of the slots of the
  hash table; so no old entry under an updated key is left, the other entries are all there
  in their relative order, and the items of \<open>d\<close> are at the end. The other seven fields are
  unchanged.
\<close>

theorem update_object_replaces_and_appends:
  "obj (update_object d m) =
     [e \<leftarrow> obj m. fst e \<notin> fst ` set (dict_items d)] @ dict_items d \<and>
   [e \<leftarrow> obj (update_object d m). fst e \<notin> fst ` set (dict_items d)] =
     [e \<leftarrow> obj m. fst e \<notin> fst ` set (dict_items d)] \<and>
   [e \<leftarrow> obj (update_object d m). fst e \<in> fst ` set (dict_items d)] = dict_items d \<and>
   drop (length [e \<leftarrow> obj m. fst e \<notin> fst ` set (dict_items d)]) (obj (update_object d m)) =
     dict_items d \<and>
   dict_items d = [e. Some e \<leftarrow> ma_table d] \<and>
   authid (update_object d m) = authid m \<and>
   opcode (update_object d m) = opcode m \<and>
   handle (update_object d m) = handle m \<and>
   tid (update_object d m) = tid m \<and>
   rid (update_object d m) = rid m \<and>
   message (update_object d m) = message m \<and>
   signature (update_object d m) = signature m"
proof -
  let ?d = "dict_items d"
  have o: "obj (update_object d m) = [e \<leftarrow> obj m. fst e \<notin> fst ` set ?d] @ ?d"
    by (simp add: update_object_def dict_contains_def case_prod_unfold)
  have d: "[e \<leftarrow> ?d. fst e \<in> fst ` set ?d] = ?d" "[e \<leftarrow> ?d. fst e \<notin> fst ` set ?d] = []"
    by (simp_all add: filter_id_conv filter_empty_conv)
  have k: "[e \<leftarrow> [e \<leftarrow> obj m. fst e \<notin> fst ` set ?d]. fst e \<in> fst ` set ?d] = []"
    by (simp add: filter_empty_conv)
  have t: "?d = [e. Some e \<leftarrow> ma_table d]"
    unfolding dict_items_def
    by (rule arg_cong[where f = concat], rule map_cong) (auto split: option.splits)
  show ?thesis
    unfolding o using t by (simp add: d k) (simp add: update_object_def)
qed

text \<open>
  C6 as stated fails: the pairs are not appended in the order they were put into the
  dictionary. For \<open>d = {}; d["b"] = "1"; d["a"] = "2"\<close> the hash of \<open>"a"\<close> selects slot 0 and
  that of \<open>"b"\<close> slot 3 of the eight slots, so \<open>items()\<close> lists \<open>"a"\<close> before \<open>"b"\<close>.
\<close>

lemma string_hash_a: "string_hash ''a'' = 12416037344"
  by (simp add: string_hash_def)

lemma string_hash_b: "string_hash ''b'' = 12544037731"
  by (simp add: string_hash_def)

lemma lookdict_numeral:
  "lookdict (numeral n) table key i perturb =
     (case table ! (i mod length table) of
        None \<Rightarrow> Some (i mod length table)
      | Some (k, v) \<Rightarrow>
          if k = key then Some (i mod length table)
          else lookdict (pred_numeral n) table key ((i * 5 + perturb + 1) mod 2 ^ 64)
                 (drop_bit 5 perturb))"
  by (simp add: numeral_eq_Suc)

definition example_update :: PyDictObject where
  "example_update =
     PyDictObject [Some (''a'', ''2''), None, None, Some (''b'', ''1''), None, None, None, None]"

theorem update_object_order_counterexample:
  "dict_of 8 [(''b'', ''1''), (''a'', ''2'')] PyDict_New = Some example_update \<and>
   obj (update_object example_update OmapiMessage_init) = [(''a'', ''2''), (''b'', ''1'')] \<and>
   obj (update_object example_update OmapiMessage_init) \<noteq> [(''b'', ''1''), (''a'', ''2'')]"
  by (simp add: PyDict_New_def PyDict_SetItem_def insertdict_def string_hash_a string_hash_b
      ma_used_def lookdict_numeral example_update_def update_object_def dict_items_def
      dict_contains_def OmapiMessage_init_def)

section \<open>The size meter of the InBuffer\<close>

lemma consumes_net32int: "consumes parse_net32int"
  unfolding parse_net32int_def by (intro consumes_map consumes_fixedbuffer)

lemma consumes_net16int: "consumes parse_net16int"
  unfolding parse_net16int_def by (intro consumes_map consumes_fixedbuffer)

lemma consumesE:
  "consumes p \<Longrightarrow> resume p g s = (r, s') \<Longrightarrow>
     (\<exists>c. buff s = c @ buff s') \<and> totalsize s' = totalsize s"
  unfolding consumes_def by blast

lemma bindict_resume_consumes:
  "parse_bindict_resume f s = (r, s') \<Longrightarrow>
     (\<exists>c. buff s = c @ buff s') \<and> totalsize s' = totalsize s"
proof (induction f s arbitrary: r s' rule: parse_bindict_resume.induct)
  case (1 entries kf s)
  obtain x y where k: "resume parse_net16string kf s = (x, y)" by (cases "resume parse_net16string kf s")
  from consumesE[OF consumes_net16string k] obtain c where
    c: "buff s = c @ buff y" "totalsize y = totalsize s" by blast
  show ?case
  proof (cases x)
    case (Inl kf')
    with 1(2) k c show ?thesis by auto
  next
    case (Inr key)
    show ?thesis
    proof (cases "key = []")
      case True
      with 1(2) k c Inr show ?thesis by auto
    next
      case False
      with 1(2) k Inr have
        "parse_bindict_resume (entries, Inr (key, start parse_net32string)) y = (r, s')" by simp
      from 1(1)[OF k[symmetric] Inr False this] c show ?thesis by auto
    qed
  qed
next
  case (2 entries key vf s)
  obtain x y where k: "resume parse_net32string vf s = (x, y)" by (cases "resume parse_net32string vf s")
  from consumesE[OF consumes_net32string k] obtain c where
    c: "buff s = c @ buff y" "totalsize y = totalsize s" by blast
  show ?case
  proof (cases x)
    case (Inl vf')
    with 2(2) k c show ?thesis by auto
  next
    case (Inr val)
    with 2(2) k have
      "parse_bindict_resume (entries @ [(key, val)], Inl (start parse_net16string)) y = (r, s')" by simp
    from 2(1)[OF k[symmetric] Inr this] c show ?thesis by auto
  qed
qed

lemma consumes_bindict: "consumes parse_bindict"
  unfolding consumes_def parse_bindict_def using bindict_resume_consumes by simp

lemma consumes_startup_message: "consumes parse_startup_message"
  unfolding parse_startup_message_def by (intro consumes_chain consumes_net32int)

lemma consumes_message: "consumes parse_message"
  unfolding parse_message_def
  by (intro consumes_map consumes_chain consumes_net32int consumes_bindict)
     (simp_all add: consumes_fixedbuffer split: prod.splits)


text \<open>The frame of the generator \<open>parse_message\<close>: how far the chain of nine parsers has
  come, the items so far and the frame of the parser at work.\<close>

type_synonym header2 = "int \<times> int"
type_synonym header3 = "header2 \<times> int"
type_synonym header4 = "header3 \<times> int"
type_synonym header5 = "header4 \<times> int"
type_synonym header6 = "header5 \<times> int"
type_synonym header7 = "header6 \<times> dict"
type_synonym header8 = "header7 \<times> dict"
type_synonym messageframe =
  "((((((((unit + int \<times> unit) + header2 \<times> unit) + header3 \<times> unit) + header4 \<times> unit)
      + header5 \<times> unit) + header6 \<times> dictframe) + header7 \<times> dictframe) + header8 \<times> unit)"

text \<open>One \<open>next()\<close> on a generator of the InBuffer, given with the frame it is suspended in.\<close>

datatype parser_call =
    Fixedbuffer int
  | Net16int
  | Net32int
  | Net16string strframe
  | Net32string strframe
  | Bindict dictframe
  | Startup_message strframe
  | Message messageframe

fun next_call :: "parser_call \<Rightarrow> InBuffer \<Rightarrow> InBuffer" where
  "next_call (Fixedbuffer n) s = snd (resume (parse_fixedbuffer n) () s)"
| "next_call Net16int s = snd (resume parse_net16int () s)"
| "next_call Net32int s = snd (resume parse_net32int () s)"
| "next_call (Net16string f) s = snd (resume parse_net16string f s)"
| "next_call (Net32string f) s = snd (resume parse_net32string f s)"
| "next_call (Bindict f) s = snd (resume parse_bindict f s)"
| "next_call (Startup_message f) s = snd (resume parse_startup_message f s)"
| "next_call (Message f) s = snd (resume parse_message f s)"

text \<open>What a user of the InBuffer can do with it, and a sequence of such operations. A
  \<open>feed\<close> that raises leaves the buffer as it is then; the exceptions raised on the way are
  collected.\<close>

datatype InBuffer_op = Feed bytes | Resetsize | Next parser_call

fun step :: "InBuffer_op \<Rightarrow> InBuffer \<Rightarrow> error option \<times> InBuffer" where
  "step (Feed data) s = feed data s"
| "step Resetsize s = (None, resetsize s)"
| "step (Next c) s = (None, next_call c s)"

fun run :: "InBuffer_op list \<Rightarrow> InBuffer \<Rightarrow> error list \<times> InBuffer" where
  "run [] s = ([], s)"
| "run (operation # ops) s =
     (case step operation s of
        (None, s') \<Rightarrow> run ops s'
      | (Some e, s') \<Rightarrow> (case run ops s' of (es, s'') \<Rightarrow> (e # es, s'')))"

lemma next_call_consumes:
  "length (buff (next_call c s)) \<le> length (buff s) \<and> totalsize (next_call c s) = totalsize s"
proof -
  have *: "\<And>p g. consumes p \<Longrightarrow>
      length (buff (snd (resume p g s))) \<le> length (buff s) \<and>
      totalsize (snd (resume p g s)) = totalsize s"
    using consumesD by (metis prod.collapse)
  show ?thesis
    by (cases c)
       (simp_all only: next_call.simps
          *[OF consumes_fixedbuffer] *[OF consumes_net16int] *[OF consumes_net32int]
          *[OF consumes_net16string] *[OF consumes_net32string] *[OF consumes_bindict]
          *[OF consumes_startup_message] *[OF consumes_message] simp_thms)
qed

lemma step_meter:
  assumes "length (buff s) \<le> totalsize s" "step operation s = (r, s')"
  shows "length (buff s') \<le> totalsize s'"
    and "r = None \<Longrightarrow> totalsize s \<le> sizelimit \<Longrightarrow> totalsize s' \<le> sizelimit"
proof -
  show "length (buff s') \<le> totalsize s'"
  proof (cases operation)
    case (Feed data)
    with assms show ?thesis by (auto simp: feed_def Let_def split: if_splits)
  next
    case Resetsize
    with assms show ?thesis by (auto simp: resetsize_def)
  next
    case (Next c)
    with assms next_call_consumes[of c s] show ?thesis by auto
  qed
  show "r = None \<Longrightarrow> totalsize s \<le> sizelimit \<Longrightarrow> totalsize s' \<le> sizelimit"
  proof (cases operation)
    case (Feed data)
    assume "r = None" "totalsize s \<le> sizelimit"
    with Feed assms show ?thesis by (auto simp: feed_def Let_def split: if_splits)
  next
    case Resetsize
    assume "r = None" "totalsize s \<le> sizelimit"
    with Resetsize assms show ?thesis by (auto simp: resetsize_def)
  next
    case (Next c)
    assume "r = None" "totalsize s \<le> sizelimit"
    with Next assms next_call_consumes[of c s] show ?thesis by auto
  qed
qed

lemma run_meter:
  "length (buff s) \<le> totalsize s \<Longrightarrow> run ops s = (es, s') \<Longrightarrow>
     length (buff s') \<le> totalsize s' \<and>
     (es = [] \<longrightarrow> totalsize s \<le> sizelimit \<longrightarrow> totalsize s' \<le> sizelimit)"
proof (induction ops arbitrary: s es)
  case Nil
  then show ?case by simp
next
  case (Cons operation ops)
  obtain r s1 where st: "step operation s = (r, s1)" by (cases "step operation s")
  note m = step_meter[OF Cons.prems(1) st]
  show ?case
  proof (cases r)
    case None
    with Cons.prems(2) st have "run ops s1 = (es, s')" by simp
    from Cons.IH[OF m(1) this] m(2)[OF None] show ?thesis by simp
  next
    case (Some e)
    with Cons.prems(2) st obtain es' where "run ops s1 = (es', s')" "es = e # es'"
      by (auto split: prod.splits)
    from Cons.IH[OF m(1) this(1)] this(2) show ?thesis by simp
  qed
qed

text \<open>
  C10, as the code has it. After every sequence of \<open>feed\<close>, \<open>resetsize\<close> and \<open>next()\<close> calls on
  the parsers, from the initial state: \<open>totalsize\<close> is at least the number of buffered bytes.
  A \<open>feed\<close> raises \<open>OmapiSizeLimitError\<close> exactly when it takes the meter past 65536, and it
  has then appended its data all the same. As long as no \<open>feed\<close> has raised, the meter and so
  the buffered bytes are within 65536, also after \<open>resetsize\<close> has set the meter back to the
  number of buffered bytes.
\<close>

theorem inbuffer_meter:
  assumes "run ops InBuffer_init = (es, s)"
  shows "length (buff s) \<le> totalsize s \<and>
         (es = [] \<longrightarrow> totalsize s \<le> 65536 \<and> length (buff s) \<le> 65536) \<and>
         fst (feed data s) =
           (if 65536 < totalsize s + length data then Some OmapiSizeLimitError else None) \<and>
         buff (snd (feed data s)) = buff s @ data \<and>
         totalsize (snd (feed data s)) = totalsize s + length data \<and>
         totalsize (resetsize s) = length (buff s) \<and>
         buff (resetsize s) = buff s"
proof -
  have i: "length (buff InBuffer_init) \<le> totalsize InBuffer_init"
    by (simp add: InBuffer_init_def)
  have a: "length (buff s) \<le> totalsize s"
    using run_meter[OF i assms] by simp
  have b: "es = [] \<longrightarrow> totalsize s \<le> 65536 \<and> length (buff s) \<le> 65536"
    using run_meter[OF i assms] by (auto simp: InBuffer_init_def sizelimit_def)
  have c: "fst (feed data s) =
      (if 65536 < totalsize s + length data then Some OmapiSizeLimitError else None)"
    by (simp add: feed_def Let_def sizelimit_def)
  have d: "buff (snd (feed data s)) = buff s @ data"
    "totalsize (snd (feed data s)) = totalsize s + length data"
    by (simp_all add: feed_def Let_def)
  have e: "totalsize (resetsize s) = length (buff s)" "buff (resetsize s) = buff s"
    by (simp_all add: resetsize_def)
  from a b c d e show ?thesis by blast
qed

definition example_ops :: "InBuffer_op list" where
  "example_ops =
     [Feed (replicate 65000 (CHR ''a'')), Next (Fixedbuffer 64000), Resetsize,
      Feed (replicate 2048 (CHR ''b'')), Next Net32int]"

lemma example_ops_run:
  "run example_ops InBuffer_init =
     ([], \<lparr>buff = replicate 996 (CHR ''a'') @ replicate 2048 (CHR ''b''), totalsize = 3048\<rparr>)"
  by (simp add: example_ops_def InBuffer_init_def feed_def resetsize_def sizelimit_def
      parse_fixedbuffer_def parse_net32int_def parse_map_def slice_to_def slice_from_def)

theorem inbuffer_meter_witness:
  "run example_ops InBuffer_init =
     ([], \<lparr>buff = replicate 996 (CHR ''a'') @ replicate 2048 (CHR ''b''), totalsize = 3048\<rparr>) \<and>
   fst (feed (replicate 62489 (CHR ''c''))
     \<lparr>buff = replicate 996 (CHR ''a'') @ replicate 2048 (CHR ''b''), totalsize = 3048\<rparr>) =
     Some OmapiSizeLimitError \<and>
   fst (feed (replicate 62488 (CHR ''c''))
     \<lparr>buff = replicate 996 (CHR ''a'') @ replicate 2048 (CHR ''b''), totalsize = 3048\<rparr>) = None"
  using inbuffer_meter[OF example_ops_run, of "replicate 62489 (CHR ''c'')"]
    inbuffer_meter[OF example_ops_run, of "replicate 62488 (CHR ''c'')"]
    example_ops_run
  by simp

text \<open>
  C10 as stated fails: the \<open>feed\<close> that raises has appended its data before, so the buffer then
  holds more than 65536 unparsed bytes.
\<close>

theorem inbuffer_bound_counterexample:
  "fst (run [Feed (replicate 65536 (CHR ''a'')), Feed ''b''] InBuffer_init) = [OmapiSizeLimitError] \<and>
   length (buff (snd (run [Feed (replicate 65536 (CHR ''a'')), Feed ''b''] InBuffer_init))) = 65537"
  by (simp add: InBuffer_init_def feed_def sizelimit_def)

section \<open>Addresses as text\<close>

text \<open>
  The builtins that \<open>pack_ip\<close>, \<open>unpack_ip\<close>, \<open>pack_mac\<close> and \<open>unpack_mac\<close> are made of, on
  byte strings. \<open>s.split(sep)\<close> for a one-character separator and \<open>sep.join(parts)\<close>:
\<close>

fun split_sep :: "char \<Rightarrow> string \<Rightarrow> string list" where
  "split_sep sep [] = [[]]"
| "split_sep sep (c # cs) =
     (if c = sep then [] # split_sep sep cs
      else (c # hd (split_sep sep cs)) # tl (split_sep sep cs))"

fun join_sep :: "string \<Rightarrow> string list \<Rightarrow> string" where
  "join_sep sep [] = []"
| "join_sep sep [p] = p"
| "join_sep sep (p # q # ps) = p @ sep @ join_sep sep (q # ps)"

text \<open>\<open>int(x)\<close> and \<open>int(x, 16)\<close> of a string, as the library reference has it: a number in the
  given base, with an optional sign, possibly embedded in whitespace, and for base 16 with an
  optional prefix \<open>0x\<close> or \<open>0X\<close>; anything else is a \<open>ValueError\<close>. (CPython 2 also skips
  whitespace between the sign and the digits.)\<close>

definition isspace :: "char \<Rightarrow> bool" where
  "isspace c \<longleftrightarrow> c \<in> set [CHR '' '', CHR 0x09, CHR 0x0A, CHR 0x0B, CHR 0x0C, CHR 0x0D]"

definition strip :: "string \<Rightarrow> string" where
  "strip s = rev (dropWhile isspace (rev (dropWhile isspace s)))"

definition digit_value :: "char \<Rightarrow> nat option" where
  "digit_value c =
     (let n = of_char c :: nat in
      if 48 \<le> n \<and> n \<le> 57 then Some (n - 48)
      else if 97 \<le> n \<and> n \<le> 122 then Some (n - 87)
      else if 65 \<le> n \<and> n \<le> 90 then Some (n - 55)
      else None)"

fun digits_value :: "nat \<Rightarrow> string \<Rightarrow> nat \<Rightarrow> nat option" where
  "digits_value base [] acc = Some acc"
| "digits_value base (c # cs) acc =
     (case digit_value c of
        None \<Rightarrow> None
      | Some d \<Rightarrow> if d < base then digits_value base cs (acc * base + d) else None)"

definition py_int :: "nat \<Rightarrow> string \<Rightarrow> error + int" where
  "py_int base x =
     (let t = strip x;
          negative = (take 1 t = ''-'');
          u = (if take 1 t = ''-'' \<or> take 1 t = ''+'' then dropWhile isspace (drop 1 t) else t);
          v = (if base = 16 \<and> (take 2 u = ''0x'' \<or> take 2 u = ''0X'') then drop 2 u else u)
      in if v = [] then Inl ValueError
         else case digits_value base v 0 of
                None \<Rightarrow> Inl ValueError
              | Some n \<Rightarrow> Inr (if negative then - int n else int n))"

text \<open>\<open>chr(i)\<close>, \<open>ord(c)\<close> is \<open>of_char\<close>, \<open>str(n)\<close> and \<open>"%2.2x" % n\<close> for the results of \<open>ord\<close>, and
  \<open>s.lower()\<close>.\<close>

definition py_chr :: "int \<Rightarrow> error + char" where
  "py_chr i = (if 0 \<le> i \<and> i < 256 then Inr (char_of i) else Inl ValueError)"

function py_str :: "nat \<Rightarrow> string" where
  "py_str n = (if n < 10 then [char_of (48 + n)] else py_str (n div 10) @ [char_of (48 + n mod 10)])"
  by pat_completeness auto
termination by (relation "measure id") auto

declare py_str.simps [simp del]

definition hexdigit :: "nat \<Rightarrow> char" where
  "hexdigit n = (if n < 10 then char_of (48 + n) else char_of (87 + n))"

function hex_str :: "nat \<Rightarrow> string" where
  "hex_str n = (if n < 16 then [hexdigit n] else hex_str (n div 16) @ [hexdigit (n mod 16)])"
  by pat_completeness auto
termination by (relation "measure id") auto

declare hex_str.simps [simp del]

definition format_2_2x :: "nat \<Rightarrow> string" where
  "format_2_2x n = replicate (2 - length (hex_str n)) (CHR ''0'') @ hex_str n"

definition lower_char :: "char \<Rightarrow> char" where
  "lower_char c =
     (if 65 \<le> (of_char c :: nat) \<and> (of_char c :: nat) \<le> 90 then char_of ((of_char c :: nat) + 32)
      else c)"

definition lower :: "string \<Rightarrow> string" where
  "lower s = map lower_char s"

text \<open>\<open>map(f, parts)\<close> for an \<open>f\<close> that may raise: the first exception ends it.\<close>

fun map_raising :: "('a \<Rightarrow> error + 'b) \<Rightarrow> 'a list \<Rightarrow> error + 'b list" where
  "map_raising f [] = Inr []"
| "map_raising f (x # xs) =
     (case f x of
        Inl e \<Rightarrow> Inl e
      | Inr y \<Rightarrow> (case map_raising f xs of Inl e \<Rightarrow> Inl e | Inr ys \<Rightarrow> Inr (y # ys)))"

definition pack_ip :: "string \<Rightarrow> error + bytes" where
  "pack_ip ipstr =
     (let parts = split_sep (CHR ''.'') ipstr in
      if length parts \<noteq> 4 then Inl ValueError
      else case map_raising (py_int 10) parts of
             Inl e \<Rightarrow> Inl e
           | Inr numbers \<Rightarrow> map_raising py_chr numbers)"

definition unpack_ip :: "bytes \<Rightarrow> error + string" where
  "unpack_ip fourbytes =
     (if length fourbytes \<noteq> 4 then Inl ValueError
      else Inr (join_sep ''.'' (map py_str (map of_char fourbytes))))"

definition pack_mac :: "string \<Rightarrow> error + bytes" where
  "pack_mac macstr =
     (let parts = split_sep (CHR '':'') macstr in
      if length parts \<noteq> 6 then Inl ValueError
      else case map_raising (py_int 16) parts of
             Inl e \<Rightarrow> Inl e
           | Inr numbers \<Rightarrow> map_raising py_chr numbers)"

definition unpack_mac :: "bytes \<Rightarrow> error + string" where
  "unpack_mac sixbytes =
     (if length sixbytes \<noteq> 6 then Inl ValueError
      else Inr (join_sep '':'' (map format_2_2x (map of_char sixbytes))))"

text \<open>\<open>unpack_ip(pack_ip(s))\<close> and \<open>unpack_mac(pack_mac(s))\<close>.\<close>

definition unpack_pack_ip :: "string \<Rightarrow> error + string" where
  "unpack_pack_ip s = (case pack_ip s of Inl e \<Rightarrow> Inl e | Inr fourbytes \<Rightarrow> unpack_ip fourbytes)"

definition unpack_pack_mac :: "string \<Rightarrow> error + string" where
  "unpack_pack_mac s = (case pack_mac s of Inl e \<Rightarrow> Inl e | Inr sixbytes \<Rightarrow> unpack_mac sixbytes)"

lemma py_str_digit: "n < 10 \<Longrightarrow> py_str n = [char_of (48 + n)]"
  by (subst py_str.simps) simp

lemma py_str_more: "10 \<le> n \<Longrightarrow> py_str n = py_str (n div 10) @ [char_of (48 + n mod 10)]"
  by (subst py_str.simps) simp

lemma hex_str_digit: "n < 16 \<Longrightarrow> hex_str n = [hexdigit n]"
  by (subst hex_str.simps) simp

lemma hex_str_more: "16 \<le> n \<Longrightarrow> hex_str n = hex_str (n div 16) @ [hexdigit (n mod 16)]"
  by (subst hex_str.simps) simp

lemmas address_defs =
  pack_ip_def unpack_ip_def pack_mac_def unpack_mac_def unpack_pack_ip_def unpack_pack_mac_def
  py_int_def strip_def isspace_def digit_value_def py_chr_def format_2_2x_def hexdigit_def
  lower_def lower_char_def char_of_def bit_Suc_0_iff py_str_digit py_str_more hex_str_digit hex_str_more

text \<open>The examples of the docstrings.\<close>

lemma address_doctests:
  "pack_ip ''foo'' = Inl ValueError \<and>
   unpack_ip ''dead'' = Inr ''100.101.97.100'' \<and>
   unpack_ip ''alive'' = Inl ValueError \<and>
   pack_mac ''30:31:32:33:34:35'' = Inr ''012345'' \<and>
   pack_mac ''bad'' = Inl ValueError \<and>
   unpack_mac ''012345'' = Inr ''30:31:32:33:34:35'' \<and>
   unpack_mac ''bad'' = Inl ValueError"
  by (simp add: address_defs)

text \<open>The well-formed texts: a dotted quad has four octets, each the decimal numeral of a
  number below 256; a colon-hex MAC address has six groups of two hexadecimal digits.\<close>

definition isdigit :: "char \<Rightarrow> bool" where
  "isdigit c \<longleftrightarrow> 48 \<le> (of_char c :: nat) \<and> (of_char c :: nat) \<le> 57"

definition isxdigit :: "char \<Rightarrow> bool" where
  "isxdigit c \<longleftrightarrow> isdigit c \<or> 97 \<le> (of_char c :: nat) \<and> (of_char c :: nat) \<le> 102
                            \<or> 65 \<le> (of_char c :: nat) \<and> (of_char c :: nat) \<le> 70"

definition decimal_octet :: "string \<Rightarrow> bool" where
  "decimal_octet p \<longleftrightarrow>
     p \<noteq> [] \<and> list_all isdigit p \<and> (p = ''0'' \<or> hd p \<noteq> CHR ''0'') \<and>
     (case digits_value 10 p 0 of None \<Rightarrow> False | Some n \<Rightarrow> n < 256)"

definition dotted_quad :: "string \<Rightarrow> bool" where
  "dotted_quad s \<longleftrightarrow>
     length (split_sep (CHR ''.'') s) = 4 \<and> list_all decimal_octet (split_sep (CHR ''.'') s)"

definition hex_pair :: "string \<Rightarrow> bool" where
  "hex_pair p \<longleftrightarrow> length p = 2 \<and> list_all isxdigit p"

definition colon_hex_mac :: "string \<Rightarrow> bool" where
  "colon_hex_mac s \<longleftrightarrow>
     length (split_sep (CHR '':'') s) = 6 \<and> list_all hex_pair (split_sep (CHR '':'') s)"

lemma split_sep_nonempty: "split_sep sep s \<noteq> []"
  by (induction s) auto

lemma join_sep_Cons: "join_sep sep ((c # p) # ps) = c # join_sep sep (p # ps)"
  by (cases ps) simp_all

lemma join_split: "join_sep [sep] (split_sep sep s) = s"
proof (induction s)
  case Nil
  show ?case by simp
next
  case (Cons c s)
  obtain q qs where r: "split_sep sep s = q # qs"
    using split_sep_nonempty[of sep s] by (cases "split_sep sep s") auto
  show ?case
  proof (cases "c = sep")
    case True
    with Cons r show ?thesis by simp
  next
    case False
    with Cons r show ?thesis by (simp add: join_sep_Cons)
  qed
qed

lemma map_raising_all:
  "(\<And>x. x \<in> set xs \<Longrightarrow> f x = Inr (g x)) \<Longrightarrow> map_raising f xs = Inr (map g xs)"
  by (induction xs) simp_all

lemma strip_id: "p \<noteq> [] \<Longrightarrow> \<not> isspace (hd p) \<Longrightarrow> \<not> isspace (last p) \<Longrightarrow> strip p = p"
proof -
  assume a: "p \<noteq> []" "\<not> isspace (hd p)" "\<not> isspace (last p)"
  from a(1,2) have 1: "dropWhile isspace p = p" by (cases p) auto
  from a(1,3) have "dropWhile isspace (rev p) = rev p"
    by (cases "rev p") (auto simp: last_rev[symmetric] simp del: last_rev)
  with 1 show ?thesis by (simp add: strip_def)
qed

lemma digits_value_snoc:
  "digits_value b (p @ [c]) acc =
     (case digits_value b p acc of
        None \<Rightarrow> None
      | Some m \<Rightarrow> (case digit_value c of
                     None \<Rightarrow> None
                   | Some d \<Rightarrow> if d < b then Some (m * b + d) else None))"
  by (induction p arbitrary: acc) (auto split: option.splits)

lemma isdigit_value: "isdigit c \<Longrightarrow> digit_value c = Some (of_char c - 48) \<and> (of_char c :: nat) - 48 < 10"
  by (auto simp: isdigit_def digit_value_def Let_def)

lemma isdigit_char: "isdigit c \<Longrightarrow> char_of (48 + ((of_char c :: nat) - 48)) = c"
  by (simp add: isdigit_def)

lemma isdigit_plain: "isdigit c \<Longrightarrow> \<not> isspace c \<and> c \<noteq> CHR ''-'' \<and> c \<noteq> CHR ''+''"
  by (auto simp: isdigit_def isspace_def)

lemma decimal_numeral:
  "list_all isdigit p \<Longrightarrow> p \<noteq> [] \<Longrightarrow> hd p \<noteq> CHR ''0'' \<Longrightarrow>
     \<exists>n. digits_value 10 p 0 = Some n \<and> 1 \<le> n \<and> py_str n = p"
proof (induction p rule: rev_induct)
  case Nil
  then show ?case by simp
next
  case (snoc c q)
  from snoc.prems(1) have c: "isdigit c" and q: "list_all isdigit q" by simp_all
  let ?d = "(of_char c :: nat) - 48"
  from isdigit_value[OF c] have dv: "digit_value c = Some ?d" and d10: "?d < 10" by simp_all
  show ?case
  proof (cases "q = []")
    case True
    with snoc.prems(3) have "c \<noteq> CHR ''0''" by simp
    then have "(of_char c :: nat) \<noteq> of_char (CHR ''0'')"
      by (simp only: of_char_eq_iff not_False_eq_True)
    then have "(of_char c :: nat) \<noteq> 48" by simp
    with c have "1 \<le> ?d" unfolding isdigit_def by arith
    moreover have "py_str ?d = [c]"
      using d10 isdigit_char[OF c] by (simp add: py_str_digit)
    ultimately show ?thesis using True dv d10 by simp
  next
    case False
    with snoc.prems(3) have "hd q \<noteq> CHR ''0''" by simp
    from snoc.IH[OF q False this] obtain m where
      m: "digits_value 10 q 0 = Some m" "1 \<le> m" "py_str m = q" by blast
    let ?n = "m * 10 + ?d"
    have v: "digits_value 10 (q @ [c]) 0 = Some ?n"
      using m(1) dv d10 by (simp add: digits_value_snoc)
    have "10 \<le> ?n" using m(2) by simp
    from py_str_more[OF this] have "py_str ?n = py_str m @ [char_of (48 + ?d)]"
      using d10 by simp
    with m(3) isdigit_char[OF c] have "py_str ?n = q @ [c]" by simp
    with v m(2) show ?thesis by simp
  qed
qed

lemma decimal_octet_int:
  assumes "decimal_octet p"
  obtains n where "py_int 10 p = Inr (int n)" "n < 256" "py_str n = p"
proof -
  from assms have ne: "p \<noteq> []" and dg: "list_all isdigit p"
    and z: "p = ''0'' \<or> hd p \<noteq> CHR ''0''"
    and b: "case digits_value 10 p 0 of None \<Rightarrow> False | Some n \<Rightarrow> n < 256"
    by (simp_all add: decimal_octet_def)
  from ne dg have h: "isdigit (hd p)" "isdigit (last p)"
    by (auto simp: list_all_iff)
  from strip_id[OF ne] h have s: "strip p = p" by (simp add: isdigit_plain)
  from h(1) ne have sg: "take 1 p \<noteq> ''-''" "take 1 p \<noteq> ''+''"
    by (cases p; auto simp: isdigit_plain)+
  from b obtain n where n: "digits_value 10 p 0 = Some n" "n < 256"
    by (auto split: option.splits)
  have i: "py_int 10 p = Inr (int n)"
    using s sg ne n(1) by (simp add: py_int_def)
  have "py_str n = p"
  proof (cases "p = ''0''")
    case True
    with n(1) show ?thesis by (simp add: digit_value_def py_str_digit char_of_def bit_Suc_0_iff)
  next
    case False
    with z have "hd p \<noteq> CHR ''0''" by simp
    from decimal_numeral[OF dg ne this] n(1) show ?thesis by auto
  qed
  with i n(2) show ?thesis using that by blast
qed

lemma ord_chr: "n < 256 \<Longrightarrow> (of_char (char_of (int n)) :: nat) = n"
  by simp

lemma dotted_quad_roundtrip:
  assumes "dotted_quad s"
  shows "unpack_pack_ip s = Inr s"
proof -
  let ?parts = "split_sep (CHR ''.'') s"
  from assms have len: "length ?parts = 4" and oct: "list_all decimal_octet ?parts"
    by (simp_all add: dotted_quad_def)
  define num where "num p = (THE n. py_int 10 p = Inr (int n))" for p
  have num: "py_int 10 p = Inr (int (num p)) \<and> num p < 256 \<and> py_str (num p) = p"
    if "p \<in> set ?parts" for p
  proof -
    from that oct have "decimal_octet p" by (simp add: list_all_iff)
    then obtain n where n: "py_int 10 p = Inr (int n)" "n < 256" "py_str n = p"
      by (rule decimal_octet_int)
    then have "num p = n" unfolding num_def by auto
    with n show ?thesis by simp
  qed
  have 1: "map_raising (py_int 10) ?parts = Inr (map (\<lambda>p. int (num p)) ?parts)"
    by (rule map_raising_all) (simp add: num)
  have 2: "map_raising py_chr (map (\<lambda>p. int (num p)) ?parts) =
      Inr (map (\<lambda>i. char_of i) (map (\<lambda>p. int (num p)) ?parts))"
    by (rule map_raising_all) (auto simp: py_chr_def num)
  have pk: "pack_ip s = Inr (map (\<lambda>p. char_of (int (num p))) ?parts)"
    using len 1 2 by (simp add: pack_ip_def comp_def)
  have "map py_str (map of_char (map (\<lambda>p. char_of (int (num p))) ?parts)) = map (\<lambda>p. p) ?parts"
    unfolding map_map by (rule map_cong) (simp_all add: num ord_chr)
  then have "unpack_ip (map (\<lambda>p. char_of (int (num p))) ?parts) = Inr (join_sep ''.'' ?parts)"
    using len by (simp add: unpack_ip_def)
  with pk show ?thesis by (simp add: unpack_pack_ip_def join_split)
qed

lemma isxdigit_value:
  assumes "isxdigit c"
  obtains x where "digit_value c = Some x" "x < 16" "hexdigit x = lower_char c"
proof -
  let ?n = "of_char c :: nat"
  have c: "char_of ?n = c" by simp
  from assms consider "48 \<le> ?n \<and> ?n \<le> 57" | "97 \<le> ?n \<and> ?n \<le> 102" | "65 \<le> ?n \<and> ?n \<le> 70"
    by (auto simp: isxdigit_def isdigit_def)
  then show ?thesis
  proof cases
    case 1
    then have r: "?n - 48 < 16" "?n - 48 < 10" "48 + (?n - 48) = ?n" "\<not> (65 \<le> ?n \<and> ?n \<le> 90)"
      by arith+
    from 1 have "digit_value c = Some (?n - 48)"
      by (simp only: digit_value_def Let_def if_True simp_thms)
    moreover have "hexdigit (?n - 48) = lower_char c"
      by (simp only: hexdigit_def lower_char_def r if_True if_False c simp_thms)
    ultimately show ?thesis using r(1) that by blast
  next
    case 2
    then have r: "?n - 87 < 16" "\<not> ?n - 87 < 10" "87 + (?n - 87) = ?n" "\<not> (65 \<le> ?n \<and> ?n \<le> 90)"
      "\<not> (48 \<le> ?n \<and> ?n \<le> 57)" "97 \<le> ?n \<and> ?n \<le> 122"
      by arith+
    from 2 have "digit_value c = Some (?n - 87)"
      by (simp only: digit_value_def Let_def r if_True if_False simp_thms)
    moreover have "hexdigit (?n - 87) = lower_char c"
      by (simp only: hexdigit_def lower_char_def r if_True if_False c simp_thms)
    ultimately show ?thesis using r(1) that by blast
  next
    case 3
    then have r: "?n - 55 < 16" "\<not> ?n - 55 < 10" "87 + (?n - 55) = ?n + 32" "65 \<le> ?n \<and> ?n \<le> 90"
      "\<not> (48 \<le> ?n \<and> ?n \<le> 57)" "\<not> (97 \<le> ?n \<and> ?n \<le> 122)"
      by arith+
    have "digit_value c = Some (?n - 55)"
      by (simp only: digit_value_def Let_def r if_True if_False simp_thms)
    moreover have "hexdigit (?n - 55) = lower_char c"
      by (simp only: hexdigit_def lower_char_def r if_True if_False simp_thms)
    ultimately show ?thesis using r(1) that by blast
  qed
qed

lemma isxdigit_plain:
  "isxdigit c \<Longrightarrow> \<not> isspace c \<and> c \<noteq> CHR ''-'' \<and> c \<noteq> CHR ''+'' \<and> c \<noteq> CHR ''x'' \<and> c \<noteq> CHR ''X''"
  by (auto simp: isxdigit_def isdigit_def isspace_def)

lemma format_pair: "x < 16 \<Longrightarrow> y < 16 \<Longrightarrow> format_2_2x (x * 16 + y) = [hexdigit x, hexdigit y]"
proof (cases "x = 0")
  case True
  assume "y < 16"
  with True show ?thesis
    by (simp add: format_2_2x_def hex_str_digit hexdigit_def char_of_def bit_Suc_0_iff)
next
  case False
  assume "x < 16" "y < 16"
  with False have "16 \<le> x * 16 + y" by simp
  from hex_str_more[OF this] \<open>x < 16\<close> \<open>y < 16\<close>
  have "hex_str (x * 16 + y) = [hexdigit x, hexdigit y]"
    by (simp add: hex_str_digit)
  then show ?thesis by (simp add: format_2_2x_def)
qed

lemma hex_pair_int:
  assumes "hex_pair p"
  obtains n where "py_int 16 p = Inr (int n)" "n < 256" "format_2_2x n = lower p"
proof -
  from assms obtain a b where p: "p = [a, b]" and a: "isxdigit a" and b: "isxdigit b"
    by (cases p; cases "tl p"; auto simp: hex_pair_def)
  from a obtain x where x: "digit_value a = Some x" "x < 16" "hexdigit x = lower_char a"
    by (rule isxdigit_value)
  from b obtain y where y: "digit_value b = Some y" "y < 16" "hexdigit y = lower_char b"
    by (rule isxdigit_value)
  have s: "strip p = p"
    using strip_id[of p] isxdigit_plain[OF a] isxdigit_plain[OF b] by (simp add: p)
  have "py_int 16 p = Inr (int (x * 16 + y))"
    using isxdigit_plain[OF a] isxdigit_plain[OF b] x y
    unfolding py_int_def s by (simp add: p)
  moreover have "x * 16 + y < 256" using x(2) y(2) by simp
  moreover have "format_2_2x (x * 16 + y) = lower p"
    using format_pair[OF x(2) y(2)] x(3) y(3) by (simp add: p lower_def)
  ultimately show ?thesis by (rule that)
qed

lemma lower_join: "lower (join_sep '':'' parts) = join_sep '':'' (map lower parts)"
  by (induction "'':''" parts rule: join_sep.induct) (simp_all add: lower_def lower_char_def)

lemma colon_hex_mac_roundtrip:
  assumes "colon_hex_mac s"
  shows "unpack_pack_mac s = Inr (lower s)"
proof -
  let ?parts = "split_sep (CHR '':'') s"
  from assms have len: "length ?parts = 6" and hex: "list_all hex_pair ?parts"
    by (simp_all add: colon_hex_mac_def)
  define num where "num p = (THE n. py_int 16 p = Inr (int n))" for p
  have num: "py_int 16 p = Inr (int (num p)) \<and> num p < 256 \<and> format_2_2x (num p) = lower p"
    if "p \<in> set ?parts" for p
  proof -
    from that hex have "hex_pair p" by (simp add: list_all_iff)
    then obtain n where n: "py_int 16 p = Inr (int n)" "n < 256" "format_2_2x n = lower p"
      by (rule hex_pair_int)
    then have "num p = n" unfolding num_def by auto
    with n show ?thesis by simp
  qed
  have 1: "map_raising (py_int 16) ?parts = Inr (map (\<lambda>p. int (num p)) ?parts)"
    by (rule map_raising_all) (simp add: num)
  have 2: "map_raising py_chr (map (\<lambda>p. int (num p)) ?parts) =
      Inr (map (\<lambda>i. char_of i) (map (\<lambda>p. int (num p)) ?parts))"
    by (rule map_raising_all) (auto simp: py_chr_def num)
  have pk: "pack_mac s = Inr (map (\<lambda>p. char_of (int (num p))) ?parts)"
    using len 1 2 by (simp add: pack_mac_def comp_def)
  have m: "map format_2_2x (map of_char (map (\<lambda>p. char_of (int (num p))) ?parts)) = map lower ?parts"
    unfolding map_map by (rule map_cong) (simp_all add: num ord_chr)
  have "unpack_mac (map (\<lambda>p. char_of (int (num p))) ?parts) =
      Inr (join_sep '':'' (map format_2_2x (map of_char (map (\<lambda>p. char_of (int (num p))) ?parts))))"
    using len by (simp add: unpack_mac_def)
  also have "\<dots> = Inr (join_sep '':'' (map lower ?parts))"
    by (simp only: m)
  also have "join_sep '':'' (map lower ?parts) = lower (join_sep '':'' ?parts)"
    by (rule lower_join[symmetric])
  also have "join_sep '':'' ?parts = s" by (rule join_split)
  finally show ?thesis using pk by (simp add: unpack_pack_mac_def)
qed

text \<open>
  C5, as the code has it. For every dotted quad \<open>s\<close> whose four octets are decimal numerals
  of numbers in \<open>[0, 255]\<close> (digits only, no leading zero), \<open>unpack_ip(pack_ip(s))\<close> is \<open>s\<close>; for
  every MAC address \<open>s\<close> of six colon-separated groups of two hexadecimal digits,
  \<open>unpack_mac(pack_mac(s))\<close> is \<open>s.lower()\<close>.
\<close>

theorem address_roundtrip:
  "(dotted_quad s \<longrightarrow> unpack_pack_ip s = Inr s) \<and>
   (colon_hex_mac s \<longrightarrow> unpack_pack_mac s = Inr (lower s))"
  using dotted_quad_roundtrip colon_hex_mac_roundtrip by blast

lemma example_dotted_quad: "dotted_quad ''192.168.0.255''"
  by (simp add: dotted_quad_def decimal_octet_def isdigit_def digit_value_def)

lemma example_colon_hex_mac: "colon_hex_mac ''0A:ff:03:04:c5:6E''"
  by (simp add: colon_hex_mac_def hex_pair_def isxdigit_def isdigit_def)

lemma example_lower: "lower ''0A:ff:03:04:c5:6E'' = ''0a:ff:03:04:c5:6e''"
  by (simp add: lower_def lower_char_def char_of_def bit_Suc_0_iff)

theorem address_roundtrip_witness:
  "dotted_quad ''192.168.0.255'' \<and>
   unpack_pack_ip ''192.168.0.255'' = Inr ''192.168.0.255'' \<and>
   colon_hex_mac ''0A:ff:03:04:c5:6E'' \<and>
   unpack_pack_mac ''0A:ff:03:04:c5:6E'' = Inr ''0a:ff:03:04:c5:6e''"
  using address_roundtrip[of "''192.168.0.255''"] address_roundtrip[of "''0A:ff:03:04:c5:6E''"]
  by (simp only: example_dotted_quad example_colon_hex_mac example_lower simp_thms)

text \<open>
  C5 as stated fails: \<open>int\<close> accepts an octet written with leading zeros, and \<open>unpack_ip\<close>
  writes it without them. In the same way \<open>pack_mac\<close> accepts groups of one hexadecimal digit,
  which \<open>unpack_mac\<close> writes with two.
\<close>

theorem leading_zero_counterexample:
  "pack_ip ''01.2.3.4'' = Inr [CHR 0x01, CHR 0x02, CHR 0x03, CHR 0x04] \<and>
   unpack_pack_ip ''01.2.3.4'' = Inr ''1.2.3.4''"
  by (simp add: address_defs)

lemma short_group_example:
  "unpack_pack_mac ''1:2:3:4:5:6'' = Inr ''01:02:03:04:05:06''"
  by (simp add: address_defs)

section \<open>The client\<close>

text \<open>
  The socket of the connection, seen from the client: what the following \<open>recv\<close> calls will
  find (data, or a \<open>socket.error\<close>; nothing more to find is the peer having closed, where
  \<open>recv\<close> returns the empty string), what has been sent, and whether \<open>sendall\<close> raises. A \<open>recv\<close>
  that waits forever is not modelled.
\<close>

datatype recv_event = Data bytes | Socket_error

record Socket =
  incoming :: "recv_event list"
  outgoing :: bytes
  send_raises :: bool

fun recv :: "nat \<Rightarrow> Socket \<Rightarrow> (error + bytes) \<times> Socket" where
  "recv bufsize s =
     (case incoming s of
        [] \<Rightarrow> (Inr [], s)
      | Socket_error # events \<Rightarrow> (Inl SocketError, s\<lparr>incoming := events\<rparr>)
      | Data d # events \<Rightarrow>
          if length d \<le> bufsize then (Inr d, s\<lparr>incoming := events\<rparr>)
          else (Inr (take bufsize d), s\<lparr>incoming := Data (drop bufsize d) # events\<rparr>))"

definition sendall :: "bytes \<Rightarrow> Socket \<Rightarrow> error option \<times> Socket" where
  "sendall data s =
     (if send_raises s then (Some SocketError, s) else (None, s\<lparr>outgoing := outgoing s @ data\<rparr>))"

text \<open>The attributes of \<open>Omapi\<close> that its methods use; \<open>connection\<close> is \<open>None\<close> once closed.\<close>

record Omapi =
  connection :: "Socket option"
  inbuffer :: InBuffer
  authenticators :: "int \<rightharpoonup> OmapiAuthenticatorBase"
  defauth :: int

definition close :: "Omapi \<Rightarrow> Omapi" where
  "close self = (case connection self of None \<Rightarrow> self | Some s \<Rightarrow> self\<lparr>connection := None\<rparr>)"

definition check_connected :: "Omapi \<Rightarrow> error option" where
  "check_connected self =
     (if connection self = None then Some (OmapiError ''not connected'') else None)"

definition recv_conn :: "nat \<Rightarrow> Omapi \<Rightarrow> (error + bytes) \<times> Omapi" where
  "recv_conn len self =
     (case check_connected self of
        Some e \<Rightarrow> (Inl e, self)
      | None \<Rightarrow>
          (case connection self of
             None \<Rightarrow> (Inl (OmapiError ''not connected''), self)
           | Some s \<Rightarrow>
               (case recv len s of
                  (Inl e, s') \<Rightarrow> (Inl e, close (self\<lparr>connection := Some s'\<rparr>))
                | (Inr data, s') \<Rightarrow> (Inr data, self\<lparr>connection := Some s'\<rparr>))))"

definition send_conn :: "bytes \<Rightarrow> Omapi \<Rightarrow> error option \<times> Omapi" where
  "send_conn data self =
     (case check_connected self of
        Some e \<Rightarrow> (Some e, self)
      | None \<Rightarrow>
          (case connection self of
             None \<Rightarrow> (Some (OmapiError ''not connected''), self)
           | Some s \<Rightarrow>
               (case sendall data s of
                  (Some e, s') \<Rightarrow> (Some e, close (self\<lparr>connection := Some s'\<rparr>))
                | (None, s') \<Rightarrow> (None, self\<lparr>connection := Some s'\<rparr>))))"

definition fill_inbuffer :: "Omapi \<Rightarrow> error option \<times> Omapi" where
  "fill_inbuffer self =
     (case recv_conn 2048 self of
        (Inl e, self') \<Rightarrow> (Some e, self')
      | (Inr data, self') \<Rightarrow>
          if data = [] then (Some (OmapiError ''connection closed''), close self')
          else (case feed data (inbuffer self') of
                  (Some e, ib) \<Rightarrow> (Some e, close (self'\<lparr>inbuffer := ib\<rparr>))
                | (None, ib) \<Rightarrow> (None, self'\<lparr>inbuffer := ib\<rparr>)))"

text \<open>What is still to come on the connection; every \<open>fill_inbuffer\<close> that returns has taken
  from it.\<close>

fun pending :: "recv_event list \<Rightarrow> nat" where
  "pending [] = 0"
| "pending (Socket_error # events) = Suc (pending events)"
| "pending (Data d # events) = Suc (length d + pending events)"

definition to_come :: "Omapi \<Rightarrow> nat" where
  "to_come self = (case connection self of None \<Rightarrow> 0 | Some s \<Rightarrow> pending (incoming s))"

lemma fill_inbuffer_takes:
  "fill_inbuffer self = (None, self') \<Longrightarrow> to_come self' < to_come self"
  by (auto simp: fill_inbuffer_def recv_conn_def check_connected_def to_come_def close_def
      split: option.splits prod.splits sum.splits list.splits recv_event.splits if_splits)

lemma to_come_inbuffer: "to_come (self\<lparr>inbuffer := ib\<rparr>) = to_come self"
  by (simp add: to_come_def)

text \<open>\<open>receive_message\<close>: the loop over the generator \<open>parse_message\<close>, which is resumed in
  the frame it was suspended in after each \<open>fill_inbuffer\<close>.\<close>

function receive_message_loop ::
  "messageframe \<Rightarrow> Omapi \<Rightarrow> (error + OmapiMessage) \<times> Omapi" where
  "receive_message_loop frame self =
     (case resume parse_message frame (inbuffer self) of
        (Inl frame', ib) \<Rightarrow>
          (case fill_inbuffer (self\<lparr>inbuffer := ib\<rparr>) of
             (Some e, self') \<Rightarrow> (Inl e, self')
           | (None, self') \<Rightarrow> receive_message_loop frame' self')
      | (Inr msg, ib) \<Rightarrow>
          (let self' = self\<lparr>inbuffer := resetsize ib\<rparr>
           in case verify (authenticators self') msg of
                Inl e \<Rightarrow> (Inl e, self')
              | Inr False \<Rightarrow> (Inl (OmapiError ''bad omapi message signature''), close self')
              | Inr True \<Rightarrow> (Inr msg, self')))"
  by pat_completeness auto
termination
proof (relation "measure (\<lambda>(frame, self). to_come self)", goal_cases)
  case 1
  show ?case by simp
next
  case 2
  then show ?case
    by (auto dest!: sym[of "(None, _)"] fill_inbuffer_takes simp: to_come_inbuffer)
qed

declare receive_message_loop.simps [simp del]

definition receive_message :: "Omapi \<Rightarrow> (error + OmapiMessage) \<times> Omapi" where
  "receive_message self = receive_message_loop (start parse_message) self"

definition receive_response ::
  "OmapiMessage \<Rightarrow> bool \<Rightarrow> Omapi \<Rightarrow> (error + OmapiMessage) \<times> Omapi" where
  "receive_response request insecure self =
     (case receive_message self of
        (Inl e, self') \<Rightarrow> (Inl e, self')
      | (Inr response, self') \<Rightarrow>
          if \<not> is_response response request
          then (Inl (OmapiError ''received message is not the desired response''), self')
          else if authid response \<noteq> defauth self' \<and> \<not> insecure
          then (Inl (OmapiError ''received message is signed with wrong authenticator''), self')
          else (Inr response, self'))"

lemma fill_inbuffer_ok:
  "fill_inbuffer self = (None, self') \<Longrightarrow>
     connection self' \<noteq> None \<and> authenticators self' = authenticators self \<and>
     defauth self' = defauth self"
  by (auto simp: fill_inbuffer_def recv_conn_def check_connected_def close_def
      split: option.splits prod.splits sum.splits if_splits)

lemma receive_message_loop_returns:
  "receive_message_loop frame self = (Inr response, self') \<Longrightarrow>
     verify (authenticators self) response = Inr True \<and>
     authenticators self' = authenticators self \<and> defauth self' = defauth self \<and>
     (connection self \<noteq> None \<longrightarrow> connection self' \<noteq> None)"
proof (induction frame self rule: receive_message_loop.induct)
  case (1 frame self)
  obtain r ib where p: "resume parse_message frame (inbuffer self) = (r, ib)"
    by (cases "resume parse_message frame (inbuffer self)")
  show ?case
  proof (cases r)
    case (Inl frame')
    obtain e self1 where f: "fill_inbuffer (self\<lparr>inbuffer := ib\<rparr>) = (e, self1)"
      by (cases "fill_inbuffer (self\<lparr>inbuffer := ib\<rparr>)")
    show ?thesis
    proof (cases e)
      case None
      with 1(2) p Inl f have "receive_message_loop frame' self1 = (Inr response, self')"
        by (subst (asm) receive_message_loop.simps) simp
      from 1(1)[OF p[symmetric] Inl f[symmetric] None this] fill_inbuffer_ok[OF f[unfolded None]]
      show ?thesis by simp
    next
      case (Some err)
      with 1(2) p Inl f show ?thesis
        by (subst (asm) receive_message_loop.simps) simp
    qed
  next
    case (Inr msg)
    with 1(2) p show ?thesis
      by (subst (asm) receive_message_loop.simps)
         (auto simp: Let_def close_def split: sum.splits bool.splits option.splits)
  qed
qed

text \<open>
  C4, as the code has it. When \<open>receive_message\<close> returns a message, which it only does for
  one whose signature it has verified, and the \<open>rid\<close> of that message is not the \<open>tid\<close> of the
  request, \<open>receive_response\<close> raises \<open>OmapiError("received message is not the desired
  response")\<close> and leaves the client as \<open>receive_message\<close> left it: it does not close the
  connection. If the client was connected before, it still is, so \<open>check_connected\<close> passes
  and neither \<open>recv_conn\<close> nor \<open>send_conn\<close> fails with \<open>"not connected"\<close>.
\<close>

theorem unexpected_response_keeps_connection:
  assumes "receive_message self = (Inr response, self')" "rid response \<noteq> tid request"
  shows "receive_response request insecure self =
           (Inl (OmapiError ''received message is not the desired response''), self') \<and>
         verify (authenticators self) response = Inr True \<and>
         (connection self \<noteq> None \<longrightarrow>
            connection self' \<noteq> None \<and> check_connected self' = None \<and>
            fst (recv_conn len self') \<noteq> Inl (OmapiError ''not connected'') \<and>
            fst (send_conn data self') \<noteq> Some (OmapiError ''not connected''))"
proof -
  have r: "receive_response request insecure self =
      (Inl (OmapiError ''received message is not the desired response''), self')"
    using assms by (simp add: receive_response_def is_response_def)
  from assms(1) have l: "verify (authenticators self) response = Inr True"
    "connection self \<noteq> None \<longrightarrow> connection self' \<noteq> None"
    using receive_message_loop_returns[of "start parse_message" self response self']
    by (simp_all add: receive_message_def)
  have c: "check_connected self' = None \<and>
      fst (recv_conn len self') \<noteq> Inl (OmapiError ''not connected'') \<and>
      fst (send_conn data self') \<noteq> Some (OmapiError ''not connected'')"
    if "connection self' \<noteq> None"
    using that
    by (auto simp: check_connected_def recv_conn_def send_conn_def sendall_def
        split: option.splits prod.splits sum.splits list.splits recv_event.splits if_splits)
  from r l c show ?thesis by blast
qed

text \<open>A run: the client waits for the response to a request with \<open>tid\<close> 8; the server sends a
  message with \<open>rid\<close> 7 and then the one with \<open>rid\<close> 8, both unsigned, as the null
  authenticator has them.\<close>

definition example_stray :: OmapiMessage where
  "example_stray =
     \<lparr>authid = 0, opcode = 3, handle = 0, tid = 1, rid = 7, message = [], obj = [],
      signature = []\<rparr>"

definition example_reply :: OmapiMessage where
  "example_reply =
     \<lparr>authid = 0, opcode = 3, handle = 0, tid = 2, rid = 8, message = [], obj = [],
      signature = []\<rparr>"

definition example_request :: OmapiMessage where
  "example_request = OmapiMessage_init\<lparr>opcode := 1, tid := 8\<rparr>"

definition wire_stray :: bytes where
  "wire_stray =
     [CHR 0x00, CHR 0x00, CHR 0x00, CHR 0x00,  CHR 0x00, CHR 0x00, CHR 0x00, CHR 0x00,
      CHR 0x00, CHR 0x00, CHR 0x00, CHR 0x03,  CHR 0x00, CHR 0x00, CHR 0x00, CHR 0x00,
      CHR 0x00, CHR 0x00, CHR 0x00, CHR 0x01,  CHR 0x00, CHR 0x00, CHR 0x00, CHR 0x07,
      CHR 0x00, CHR 0x00,  CHR 0x00, CHR 0x00]"

definition wire_reply :: bytes where
  "wire_reply =
     [CHR 0x00, CHR 0x00, CHR 0x00, CHR 0x00,  CHR 0x00, CHR 0x00, CHR 0x00, CHR 0x00,
      CHR 0x00, CHR 0x00, CHR 0x00, CHR 0x03,  CHR 0x00, CHR 0x00, CHR 0x00, CHR 0x00,
      CHR 0x00, CHR 0x00, CHR 0x00, CHR 0x02,  CHR 0x00, CHR 0x00, CHR 0x00, CHR 0x08,
      CHR 0x00, CHR 0x00,  CHR 0x00, CHR 0x00]"

definition example_socket :: "recv_event list \<Rightarrow> Socket" where
  "example_socket events = \<lparr>incoming = events, outgoing = [], send_raises = False\<rparr>"

definition example_client :: "recv_event list \<Rightarrow> Omapi" where
  "example_client events =
     \<lparr>connection = Some (example_socket events), inbuffer = InBuffer_init,
      authenticators = [0 \<mapsto> OmapiNullAuthenticator], defauth = 0\<rparr>"

lemma example_defauth: "defauth (example_client events) = 0"
  by (simp add: example_client_def)

lemma parse_message_starved:
  "buff s = [] \<Longrightarrow> resume parse_message (start parse_message) s = (Inl (start parse_message), s)"
  by (simp add: parse_message_def parse_map_def parse_chain_def parse_net32int_def
      parse_fixedbuffer_def)

lemma wire_stray_parsed:
  "resume parse_message (start parse_message) \<lparr>buff = wire_stray, totalsize = t\<rparr> =
     (Inr example_stray, \<lparr>buff = [], totalsize = t\<rparr>)"
proof -
  have w: "wire_stray = pack_L (authid example_stray) @ signed_part example_stray @
      signature example_stray @ []"
    by (simp add: wire_stray_def example_stray_def signed_part_def pack_L_def encode_bindict_def
        char_of_def)
  show ?thesis
    unfolding w first_next_def[symmetric]
    by (rule first_next_message)
       (simp_all add: example_stray_def u32_def wellsized_def nonempty_keys_def)
qed

lemma wire_reply_parsed:
  "resume parse_message (start parse_message) \<lparr>buff = wire_reply, totalsize = t\<rparr> =
     (Inr example_reply, \<lparr>buff = [], totalsize = t\<rparr>)"
proof -
  have w: "wire_reply = pack_L (authid example_reply) @ signed_part example_reply @
      signature example_reply @ []"
    by (simp add: wire_reply_def example_reply_def signed_part_def pack_L_def encode_bindict_def
        char_of_def)
  show ?thesis
    unfolding w first_next_def[symmetric]
    by (rule first_next_message)
       (simp_all add: example_reply_def u32_def wellsized_def nonempty_keys_def)
qed

lemma example_verified:
  "verify [0 \<mapsto> OmapiNullAuthenticator] example_stray = Inr True"
  "verify [0 \<mapsto> OmapiNullAuthenticator] example_reply = Inr True"
  by (simp_all add: verify_def example_stray_def example_reply_def OmapiNullAuthenticator_def
      as_string_def add_bindict_def add_net32int_def add_def and_then_def sizelimit_def)

lemma example_receive_stray:
  "receive_message (example_client (Data wire_stray # events)) =
     (Inr example_stray, example_client events)"
proof -
  have l: "length wire_stray = 28" by (simp add: wire_stray_def)
  have ne: "wire_stray \<noteq> []" by (simp add: wire_stray_def)
  have f: "fill_inbuffer (example_client (Data wire_stray # events)) =
      (None, (example_client events)\<lparr>inbuffer := \<lparr>buff = wire_stray, totalsize = 28\<rparr>\<rparr>)"
    using l ne
    by (simp add: fill_inbuffer_def recv_conn_def check_connected_def example_client_def
        example_socket_def feed_def InBuffer_init_def sizelimit_def)
  show ?thesis
    unfolding receive_message_def
    apply (subst receive_message_loop.simps)
    apply (simp add: example_client_def InBuffer_init_def parse_message_starved)
    apply (simp add: f[unfolded example_client_def InBuffer_init_def])
    apply (subst receive_message_loop.simps)
    apply (simp add: wire_stray_parsed resetsize_def example_verified)
    done
qed

lemma example_receive_reply:
  "receive_message (example_client (Data wire_reply # events)) =
     (Inr example_reply, example_client events)"
proof -
  have l: "length wire_reply = 28" by (simp add: wire_reply_def)
  have ne: "wire_reply \<noteq> []" by (simp add: wire_reply_def)
  have f: "fill_inbuffer (example_client (Data wire_reply # events)) =
      (None, (example_client events)\<lparr>inbuffer := \<lparr>buff = wire_reply, totalsize = 28\<rparr>\<rparr>)"
    using l ne
    by (simp add: fill_inbuffer_def recv_conn_def check_connected_def example_client_def
        example_socket_def feed_def InBuffer_init_def sizelimit_def)
  show ?thesis
    unfolding receive_message_def
    apply (subst receive_message_loop.simps)
    apply (simp add: example_client_def InBuffer_init_def parse_message_starved)
    apply (simp add: f[unfolded example_client_def InBuffer_init_def])
    apply (subst receive_message_loop.simps)
    apply (simp add: wire_reply_parsed resetsize_def example_verified)
    done
qed

theorem unexpected_response_keeps_connection_witness:
  "receive_message (example_client [Data wire_stray, Data wire_reply]) =
     (Inr example_stray, example_client [Data wire_reply]) \<and>
   rid example_stray \<noteq> tid example_request \<and>
   receive_response example_request False (example_client [Data wire_stray, Data wire_reply]) =
     (Inl (OmapiError ''received message is not the desired response''),
      example_client [Data wire_reply]) \<and>
   check_connected (example_client [Data wire_reply]) = None"
  using unexpected_response_keeps_connection[OF example_receive_stray[of "[Data wire_reply]"],
      where request = example_request and insecure = False and len = 2048 and data = "[]"]
    example_receive_stray[of "[Data wire_reply]"]
  by (simp add: example_stray_def example_request_def example_client_def)

text \<open>
  C4 as stated fails: after the failure the connection is open, and the response that the
  server sends next is received on it.
\<close>

theorem unexpected_response_counterexample:
  "fst (receive_response example_request False
          (example_client [Data wire_stray, Data wire_reply])) =
     Inl (OmapiError ''received message is not the desired response'') \<and>
   check_connected
     (snd (receive_response example_request False
             (example_client [Data wire_stray, Data wire_reply]))) = None \<and>
   fst (receive_response example_request False
          (snd (receive_response example_request False
                  (example_client [Data wire_stray, Data wire_reply])))) =
     Inr example_reply"
proof -
  have 1: "receive_response example_request False
      (example_client [Data wire_stray, Data wire_reply]) =
      (Inl (OmapiError ''received message is not the desired response''),
       example_client [Data wire_reply])"
    by (simp add: receive_response_def example_receive_stray is_response_def example_stray_def
        example_request_def)
  have 2: "receive_response example_request False (example_client [Data wire_reply]) =
      (Inr example_reply, example_client [])"
    by (simp add: receive_response_def example_receive_reply is_response_def example_reply_def
        example_request_def example_defauth)
  have 3: "check_connected (example_client [Data wire_reply]) = None"
    by (simp add: check_connected_def example_client_def)
  show ?thesis by (simp add: 1 2 3)
qed

end
